theory Spec2Isabelle
  imports Complex_Main "HOL-Library.Sublist"
begin

section \<open>Python values used by both scripts\<close>

text \<open>
  A string is the list of its code points, each below 256 (ASCII and Latin-1); a text
  with a code point above 255 is outside the model. On these strings \<open>lower\<close>,
  \<open>strip\<close> and \<open>join\<close> are Python's \<^verbatim>\<open>str\<close> methods. Floats are modelled by the
  real numbers they denote (no NaN, no infinity); the code only compares them with
  integer thresholds and rounds them.
\<close>

datatype error = AttributeError | ZeroDivisionError | ServiceError

text \<open>The upper-case letters below 256: A to Z, and U+00C0 to U+00DE without the
  multiplication sign U+00D7. The lower case of each is 32 further.\<close>

definition is_upper :: "char \<Rightarrow> bool" where
  "is_upper c =
     (let n = (of_char c :: nat)
      in (65 \<le> n \<and> n \<le> 90) \<or> (192 \<le> n \<and> n \<le> 222 \<and> n \<noteq> 215))"

definition lower_char :: "char \<Rightarrow> char" where
  "lower_char c =
     (case c of Char b0 b1 b2 b3 b4 b5 b6 b7 \<Rightarrow>
        if is_upper c then Char b0 b1 b2 b3 b4 True b6 b7 else c)"

definition lower :: "string \<Rightarrow> string" where
  "lower s = map lower_char s"

text \<open>
  \<^verbatim>\<open>str.upper()\<close>: a to z and U+00E0 to U+00FE without the division sign U+00F7 go 32
  down, and the sharp s U+00DF becomes \<^verbatim>\<open>SS\<close>. The upper case of U+00B5 and of U+00FF lies
  above 255; these two characters are kept as they are. The source only searches the
  result for the brand names, which are ASCII, and neither form of the two characters
  is ASCII.
\<close>

definition has_upper :: "char \<Rightarrow> bool" where
  "has_upper c =
     (let n = (of_char c :: nat)
      in (97 \<le> n \<and> n \<le> 122) \<or> (224 \<le> n \<and> n \<le> 254 \<and> n \<noteq> 247))"

definition upper_char :: "char \<Rightarrow> string" where
  "upper_char c =
     (case c of Char b0 b1 b2 b3 b4 b5 b6 b7 \<Rightarrow>
        if has_upper c then [Char b0 b1 b2 b3 b4 False b6 b7]
        else if (of_char c :: nat) = 223 then ''SS''
        else [c])"

definition upper :: "string \<Rightarrow> string" where
  "upper s = concat (map upper_char s)"

text \<open>\<^verbatim>\<open>str.title()\<close> on an ASCII string (the source applies it to the brand names
  only): a letter is upper-cased after a character that is not a letter and lower-cased
  after a letter.\<close>

definition is_ascii_letter :: "char \<Rightarrow> bool" where
  "is_ascii_letter c =
     (let n = (of_char c :: nat) in (65 \<le> n \<and> n \<le> 90) \<or> (97 \<le> n \<and> n \<le> 122))"

definition set_case_bit :: "bool \<Rightarrow> char \<Rightarrow> char" where
  "set_case_bit b c = (case c of Char b0 b1 b2 b3 b4 b5 b6 b7 \<Rightarrow> Char b0 b1 b2 b3 b4 b b6 b7)"

fun title_from :: "bool \<Rightarrow> string \<Rightarrow> string" where
  "title_from prev_cased [] = []"
| "title_from prev_cased (c # cs) =
     (if is_ascii_letter c
      then set_case_bit prev_cased c # title_from True cs
      else c # title_from False cs)"

definition title :: "string \<Rightarrow> string" where
  "title s = title_from False s"

text \<open>
  \<^verbatim>\<open>str.strip()\<close> removes the characters for which \<^verbatim>\<open>str.isspace\<close> holds from both
  ends. Below 256 these are U+0009 to U+000D, U+001C to U+0020, the next-line
  character U+0085 and the no-break space U+00A0.
\<close>

definition is_space :: "char \<Rightarrow> bool" where
  "is_space c =
     (let n = (of_char c :: nat)
      in (9 \<le> n \<and> n \<le> 13) \<or> (28 \<le> n \<and> n \<le> 32) \<or> n = 133 \<or> n = 160)"

definition strip :: "string \<Rightarrow> string" where
  "strip s = rev (dropWhile is_space (rev (dropWhile is_space s)))"

text \<open>\<^verbatim>\<open>sep.join(parts)\<close>.\<close>

fun join :: "string \<Rightarrow> string list \<Rightarrow> string" where
  "join sep [] = []"
| "join sep [p] = p"
| "join sep (p # q # ps) = p @ sep @ join sep (q # ps)"

text \<open>\<^verbatim>\<open>needle in haystack\<close> on strings.\<close>

fun is_prefix :: "string \<Rightarrow> string \<Rightarrow> bool" where
  "is_prefix [] ys = True"
| "is_prefix (x # xs) [] = False"
| "is_prefix (x # xs) (y # ys) = (x = y \<and> is_prefix xs ys)"

fun contains :: "string \<Rightarrow> string \<Rightarrow> bool" where
  "contains needle [] = (needle = [])"
| "contains needle (c # cs) = (is_prefix needle (c # cs) \<or> contains needle cs)"

text \<open>\<^verbatim>\<open>round(x, ndigits)\<close> on a float: to the nearest multiple of \<open>10 ^ -ndigits\<close>,
  a tie going to the even neighbour.\<close>

definition round_half_even :: "real \<Rightarrow> int" where
  "round_half_even x =
     (let f = \<lfloor>x\<rfloor>; d = x - of_int f
      in if d < 1 / 2 then f else if 1 / 2 < d then f + 1 else if even f then f else f + 1)"

definition py_round :: "real \<Rightarrow> nat \<Rightarrow> real" where
  "py_round x ndigits = of_int (round_half_even (x * 10 ^ ndigits)) / 10 ^ ndigits"

text \<open>\<^verbatim>\<open>str(n)\<close> for an integer.\<close>

definition digit_char :: "nat \<Rightarrow> char" where
  "digit_char n = ''0123456789'' ! (n mod 10)"

function str_nat :: "nat \<Rightarrow> string" where
  "str_nat n = (if n < 10 then [digit_char n] else str_nat (n div 10) @ [digit_char n])"
  by pat_completeness auto
termination
  by (relation "measure (\<lambda>n. n)") auto

declare str_nat.simps [simp del]

definition str_int :: "int \<Rightarrow> string" where
  "str_int i = (if i < 0 then CHR ''-'' # str_nat (nat (- i)) else str_nat (nat i))"

section \<open>usda\_cleaner.py\<close>

subsection \<open>Raw and cleaned records\<close>

text \<open>
  A key of a JSON object is absent, holds \<^verbatim>\<open>null\<close>, or holds a value of the type
  the USDA FoodData Central schema gives it.
\<close>

datatype 'a field = Absent | Null | Val 'a

text \<open>One entry of \<^verbatim>\<open>foodNutrients\<close>: \<open>nutrient\<close> is the sub-object, holding the
  key \<^verbatim>\<open>id\<close>.\<close>

record raw_nutrient =
  nutrient :: "int field field"
  amount :: "real field"

text \<open>A raw food; \<open>foodCategory\<close> is the sub-object, holding the key
  \<^verbatim>\<open>description\<close>.\<close>

record raw_food =
  raw_description :: "string field"
  foodNutrients :: "raw_nutrient list field"
  fdcId :: "int field"
  foodCategory :: "string field field"

record micronutrients =
  calcium_mg :: real
  iron_mg :: real
  potassium_mg :: real
  vitamin_c_mg :: real
  saturated_fat_g :: real

text \<open>The dictionary \<^verbatim>\<open>clean_food\<close> before the key \<^verbatim>\<open>embedding_text\<close> is added
  (\<open>clean_food\<close>), and after (\<open>food\<close>).\<close>

record clean_food =
  external_id :: string
  name :: string
  description :: string
  brand :: "string option"
  category :: string
  calories_per_100g :: real
  protein_per_100g :: real
  fat_per_100g :: real
  carbs_per_100g :: real
  fiber_per_100g :: real
  sugar_per_100g :: real
  sodium_per_100g :: real
  data_source :: string
  nutrients :: micronutrients

record food = clean_food +
  embedding_text :: string

subsection \<open>NUTRIENT\_IDS, get\_nutrient, extract\_brand\<close>

definition ENERGY_KCAL :: int where "ENERGY_KCAL = 1008"
definition PROTEIN :: int where "PROTEIN = 1003"
definition FAT :: int where "FAT = 1004"
definition CARBS :: int where "CARBS = 1005"
definition FIBER :: int where "FIBER = 1079"
definition SUGAR :: int where "SUGAR = 1063"
definition SODIUM :: int where "SODIUM = 1093"
definition CALCIUM :: int where "CALCIUM = 1087"
definition IRON :: int where "IRON = 1089"
definition POTASSIUM :: int where "POTASSIUM = 1092"
definition VITAMIN_C :: int where "VITAMIN_C = 1162"
definition SATURATED_FAT :: int where "SATURATED_FAT = 1258"

text \<open>
  \<^verbatim>\<open>nutrient.get('nutrient', {}).get('id') == nutrient_id\<close>: a \<^verbatim>\<open>null\<close> sub-object
  has no \<^verbatim>\<open>get\<close> and raises; a missing sub-object or id compares unequal.
  \<^verbatim>\<open>float(amount) if amount is not None else 0.0\<close>, with 0 for a missing amount.
\<close>

fun get_nutrient :: "raw_nutrient list \<Rightarrow> int \<Rightarrow> error + real" where
  "get_nutrient [] nutrient_id = Inr 0"
| "get_nutrient (n # ns) nutrient_id =
     (case nutrient n of
        Null \<Rightarrow> Inl AttributeError
      | Absent \<Rightarrow> get_nutrient ns nutrient_id
      | Val d \<Rightarrow>
          (if d = Val nutrient_id
           then Inr (case amount n of Val a \<Rightarrow> a | Null \<Rightarrow> 0 | Absent \<Rightarrow> 0)
           else get_nutrient ns nutrient_id))"

definition brands :: "string list" where
  "brands = [''PILLSBURY'', ''SABRA'', ''TRIBE'', ''KELLOGG'', ''GENERAL MILLS'', ''KRAFT'',
     ''PEPSI'', ''COCA COLA'', ''MCDONALD'', ''BURGER KING'', ''SUBWAY'']"

fun first_brand :: "string list \<Rightarrow> string \<Rightarrow> string option" where
  "first_brand [] name_upper = None"
| "first_brand (b # bs) name_upper =
     (if contains b name_upper then Some (title b) else first_brand bs name_upper)"

definition extract_brand :: "string \<Rightarrow> string option" where
  "extract_brand nm = first_brand brands (upper nm)"

subsection \<open>create\_embedding\_text\<close>

text \<open>\<open>embedding_parts\<close> is the list \<^verbatim>\<open>parts\<close> at the \<^verbatim>\<open>return\<close>; the
  function returns it joined by spaces.\<close>

definition embedding_parts :: "'a clean_food_scheme \<Rightarrow> string list" where
  "embedding_parts f =
     (let parts = [lower (name f), lower (category f)];
          calories = calories_per_100g f;
          parts = parts @ [if calories \<le> 50 then ''very low calorie''
                           else if calories \<le> 100 then ''low calorie''
                           else if calories \<le> 200 then ''moderate calorie''
                           else if calories \<le> 400 then ''high calorie''
                           else ''very high calorie''];
          protein = protein_per_100g f;
          parts = parts @ [if protein \<ge> 20 then ''very high protein''
                           else if protein \<ge> 15 then ''high protein''
                           else if protein \<ge> 10 then ''moderate protein''
                           else if protein \<ge> 5 then ''some protein''
                           else ''low protein''];
          fat = fat_per_100g f;
          parts = parts @ [if fat \<le> 3 then ''low fat''
                           else if fat \<le> 10 then ''moderate fat''
                           else ''high fat''];
          carbs = carbs_per_100g f;
          parts = parts @ [if carbs \<le> 5 then ''very low carb keto friendly''
                           else if carbs \<le> 20 then ''low carb''
                           else if carbs \<le> 45 then ''moderate carb''
                           else ''high carb''];
          parts = (if fiber_per_100g f \<ge> 10 then parts @ [''very high fiber'']
                   else if fiber_per_100g f \<ge> 5 then parts @ [''high fiber'']
                   else parts);
          parts = (if sugar_per_100g f \<ge> 15 then parts @ [''high sugar sweet'']
                   else if sugar_per_100g f \<le> 2 then parts @ [''sugar free'']
                   else parts);
          parts = (if sodium_per_100g f \<ge> 600 then parts @ [''high sodium salty'']
                   else if sodium_per_100g f \<le> 140 then parts @ [''low sodium'']
                   else parts);
          parts = (if protein \<ge> 15 \<and> calories \<le> 200 then parts @ [''lean protein snack'']
                   else parts);
          parts = (if fat \<ge> 15 \<and> carbs \<le> 10 then parts @ [''ketogenic food'']
                   else parts);
          parts = (if fiber_per_100g f \<ge> 5 \<and> calories \<le> 150
                   then parts @ [''filling low calorie''] else parts)
      in parts)"

definition create_embedding_text :: "'a clean_food_scheme \<Rightarrow> string" where
  "create_embedding_text f = join '' '' (embedding_parts f)"

subsection \<open>clean\_food\_data\<close>

text \<open>
  The result is \<open>Inr None\<close> for Python's \<^verbatim>\<open>None\<close>, \<open>Inr (Some r)\<close> for a returned
  record and \<open>Inl e\<close> for an exception that leaves the function. The statements
  run in the order of the source: the two early returns, the category (a \<^verbatim>\<open>null\<close>
  \<^verbatim>\<open>foodCategory\<close> raises there), seven nutrient look-ups with the sugar
  fallback, the check of name and calories, the five micronutrients, and the
  embedding text (where a \<^verbatim>\<open>null\<close> category description raises on \<^verbatim>\<open>.lower()\<close>).
\<close>

definition bind_res :: "error + 'a \<Rightarrow> ('a \<Rightarrow> error + 'b) \<Rightarrow> error + 'b" where
  "bind_res r k = (case r of Inl e \<Rightarrow> Inl e | Inr v \<Rightarrow> k v)"

definition clean_food_data :: "raw_food \<Rightarrow> error + food option" where
  "clean_food_data raw =
     (case raw_description raw of
        Absent \<Rightarrow> Inr None
      | Null \<Rightarrow> Inr None
      | Val d \<Rightarrow>
        if d = [] then Inr None else
        (case foodNutrients raw of
           Absent \<Rightarrow> Inr None
         | Null \<Rightarrow> Inr None
         | Val ns \<Rightarrow>
           if ns = [] then Inr None else
           (let ext = (case fdcId raw of Absent \<Rightarrow> [] | Null \<Rightarrow> ''None'' | Val i \<Rightarrow> str_int i);
                nm = strip d
            in bind_res (case foodCategory raw of
                           Absent \<Rightarrow> Inr (Val ''Unknown'')
                         | Null \<Rightarrow> Inl AttributeError
                         | Val c \<Rightarrow> Inr (case c of Absent \<Rightarrow> Val ''Unknown'' | Null \<Rightarrow> Null | Val s \<Rightarrow> Val s))
              (\<lambda>cat. bind_res (get_nutrient ns ENERGY_KCAL)
              (\<lambda>calories. bind_res (get_nutrient ns PROTEIN)
              (\<lambda>protein. bind_res (get_nutrient ns FAT)
              (\<lambda>fat. bind_res (get_nutrient ns CARBS)
              (\<lambda>carbs. bind_res (get_nutrient ns FIBER)
              (\<lambda>fiber. bind_res (get_nutrient ns SUGAR)
              (\<lambda>sugar0. bind_res (if sugar0 = 0 then get_nutrient ns 2000 else Inr sugar0)
              (\<lambda>sugar. bind_res (get_nutrient ns SODIUM)
              (\<lambda>sodium.
                 if nm = [] \<or> calories = 0 then Inr None else
                 bind_res (get_nutrient ns CALCIUM)
              (\<lambda>calcium. bind_res (get_nutrient ns IRON)
              (\<lambda>iron. bind_res (get_nutrient ns POTASSIUM)
              (\<lambda>potassium. bind_res (get_nutrient ns VITAMIN_C)
              (\<lambda>vitamin_c. bind_res (get_nutrient ns SATURATED_FAT)
              (\<lambda>saturated_fat.
                 (case cat of
                    Val c \<Rightarrow>
                      (let cf = \<lparr> external_id = ext, name = nm, description = nm,
                                  brand = extract_brand nm, category = c,
                                  calories_per_100g = py_round calories 2,
                                  protein_per_100g = py_round protein 2,
                                  fat_per_100g = py_round fat 2,
                                  carbs_per_100g = py_round carbs 2,
                                  fiber_per_100g = py_round fiber 2,
                                  sugar_per_100g = py_round sugar 2,
                                  sodium_per_100g = py_round sodium 2,
                                  data_source = ''usda'',
                                  nutrients = \<lparr> calcium_mg = py_round calcium 2,
                                                iron_mg = py_round iron 2,
                                                potassium_mg = py_round potassium 2,
                                                vitamin_c_mg = py_round vitamin_c 2,
                                                saturated_fat_g = py_round saturated_fat 2 \<rparr> \<rparr>
                       in Inr (Some (clean_food.extend cf
                                      \<lparr> embedding_text = create_embedding_text cf \<rparr>)))
                  | Null \<Rightarrow> Inl AttributeError
                  | Absent \<Rightarrow> Inl AttributeError))))))))))))))))))"


subsection \<open>process\_usda\_json\<close>

text \<open>
  The cleaning loop of \<^verbatim>\<open>process_usda_json\<close> over the list \<^verbatim>\<open>foods\<close> found in the
  input file, with the counters \<^verbatim>\<open>cleaned_foods\<close> and \<^verbatim>\<open>skipped\<close>. The test
  \<^verbatim>\<open>limit and len(cleaned_foods) >= limit\<close> is false for \<^verbatim>\<open>None\<close> and for 0.
  Reading the input, finding the list in it and writing the output are left out.
\<close>

fun clean_foods_loop ::
  "raw_food list \<Rightarrow> int option \<Rightarrow> food list \<Rightarrow> nat \<Rightarrow> error + food list \<times> nat" where
  "clean_foods_loop [] limit cleaned_foods skipped = Inr (cleaned_foods, skipped)"
| "clean_foods_loop (f # fs) limit cleaned_foods skipped =
     (if (case limit of None \<Rightarrow> False | Some l \<Rightarrow> l \<noteq> 0 \<and> int (length cleaned_foods) \<ge> l)
      then Inr (cleaned_foods, skipped)
      else (case clean_food_data f of
              Inl e \<Rightarrow> Inl e
            | Inr None \<Rightarrow> clean_foods_loop fs limit cleaned_foods (skipped + 1)
            | Inr (Some clean_food) \<Rightarrow>
                clean_foods_loop fs limit (cleaned_foods @ [clean_food]) skipped))"

definition process_usda_json :: "raw_food list \<Rightarrow> int option \<Rightarrow> error + food list \<times> nat" where
  "process_usda_json foods limit = clean_foods_loop foods limit [] 0"

subsection \<open>Buckets and rejection conditions of the specification\<close>

text \<open>
  The definitions of this subsection follow the words of the specification, not the
  code: the bucket of a value for each threshold rule, the tokens by interval, and the
  conditions under which a raw record is rejected. \<open>apple\<close>, \<open>blank_name_food\<close> and
  \<open>raw_butter\<close> are example records.
\<close>

definition calorie_bucket :: "real \<Rightarrow> nat" where
  "calorie_bucket c = (if c \<le> 50 then 0 else if c \<le> 100 then 1 else if c \<le> 200 then 2
                       else if c \<le> 400 then 3 else 4)"
definition protein_bucket :: "real \<Rightarrow> nat" where
  "protein_bucket p = (if p \<ge> 20 then 0 else if p \<ge> 15 then 1 else if p \<ge> 10 then 2
                       else if p \<ge> 5 then 3 else 4)"
definition fat_bucket :: "real \<Rightarrow> nat" where
  "fat_bucket x = (if x \<le> 3 then 0 else if x \<le> 10 then 1 else 2)"
definition carb_bucket :: "real \<Rightarrow> nat" where
  "carb_bucket x = (if x \<le> 5 then 0 else if x \<le> 20 then 1 else if x \<le> 45 then 2 else 3)"
definition fiber_bucket :: "real \<Rightarrow> nat" where
  "fiber_bucket x = (if x \<ge> 10 then 0 else if x \<ge> 5 then 1 else 2)"
definition sugar_bucket :: "real \<Rightarrow> nat" where
  "sugar_bucket x = (if x \<ge> 15 then 0 else if x \<le> 2 then 1 else 2)"
definition sodium_bucket :: "real \<Rightarrow> nat" where
  "sodium_bucket x = (if x \<ge> 600 then 0 else if x \<le> 140 then 1 else 2)"
definition lean_protein_snack :: "'a clean_food_scheme \<Rightarrow> bool" where
  "lean_protein_snack f = (protein_per_100g f \<ge> 15 \<and> calories_per_100g f \<le> 200)"
definition ketogenic_food :: "'a clean_food_scheme \<Rightarrow> bool" where
  "ketogenic_food f = (fat_per_100g f \<ge> 15 \<and> carbs_per_100g f \<le> 10)"
definition filling_low_calorie :: "'a clean_food_scheme \<Rightarrow> bool" where
  "filling_low_calorie f = (fiber_per_100g f \<ge> 5 \<and> calories_per_100g f \<le> 150)"

definition same_buckets :: "'a clean_food_scheme \<Rightarrow> 'b clean_food_scheme \<Rightarrow> bool" where
  "same_buckets f g =
     (calorie_bucket (calories_per_100g f) = calorie_bucket (calories_per_100g g) \<and>
      protein_bucket (protein_per_100g f) = protein_bucket (protein_per_100g g) \<and>
      fat_bucket (fat_per_100g f) = fat_bucket (fat_per_100g g) \<and>
      carb_bucket (carbs_per_100g f) = carb_bucket (carbs_per_100g g) \<and>
      fiber_bucket (fiber_per_100g f) = fiber_bucket (fiber_per_100g g) \<and>
      sugar_bucket (sugar_per_100g f) = sugar_bucket (sugar_per_100g g) \<and>
      sodium_bucket (sodium_per_100g f) = sodium_bucket (sodium_per_100g g) \<and>
      lean_protein_snack f = lean_protein_snack g \<and>
      ketogenic_food f = ketogenic_food g \<and>
      filling_low_calorie f = filling_low_calorie g)"

definition spec_calorie_token :: "real \<Rightarrow> string" where
  "spec_calorie_token c =
     (if c \<le> 50 then ''very low calorie''
      else if 50 < c \<and> c \<le> 100 then ''low calorie''
      else if 100 < c \<and> c \<le> 200 then ''moderate calorie''
      else if 200 < c \<and> c \<le> 400 then ''high calorie''
      else ''very high calorie'')"
definition spec_protein_token :: "real \<Rightarrow> string" where
  "spec_protein_token p =
     (if 20 \<le> p then ''very high protein''
      else if 15 \<le> p \<and> p < 20 then ''high protein''
      else if 10 \<le> p \<and> p < 15 then ''moderate protein''
      else if 5 \<le> p \<and> p < 10 then ''some protein''
      else ''low protein'')"
definition spec_fat_token :: "real \<Rightarrow> string" where
  "spec_fat_token x =
     (if x \<le> 3 then ''low fat'' else if 3 < x \<and> x \<le> 10 then ''moderate fat'' else ''high fat'')"
definition spec_carb_token :: "real \<Rightarrow> string" where
  "spec_carb_token x =
     (if x \<le> 5 then ''very low carb keto friendly''
      else if 5 < x \<and> x \<le> 20 then ''low carb''
      else if 20 < x \<and> x \<le> 45 then ''moderate carb''
      else ''high carb'')"
definition spec_fiber_tokens :: "real \<Rightarrow> string list" where
  "spec_fiber_tokens x =
     (if 10 \<le> x then [''very high fiber''] else if 5 \<le> x \<and> x < 10 then [''high fiber''] else [])"
definition spec_sugar_tokens :: "real \<Rightarrow> string list" where
  "spec_sugar_tokens x =
     (if 15 \<le> x then [''high sugar sweet''] else if x \<le> 2 then [''sugar free''] else [])"
definition spec_sodium_tokens :: "real \<Rightarrow> string list" where
  "spec_sodium_tokens x =
     (if 600 \<le> x then [''high sodium salty''] else if x \<le> 140 then [''low sodium''] else [])"
definition spec_composite_tokens :: "'a clean_food_scheme \<Rightarrow> string list" where
  "spec_composite_tokens f =
     (if 15 \<le> protein_per_100g f \<and> calories_per_100g f \<le> 200 then [''lean protein snack''] else []) @
     (if 15 \<le> fat_per_100g f \<and> carbs_per_100g f \<le> 10 then [''ketogenic food''] else []) @
     (if 5 \<le> fiber_per_100g f \<and> calories_per_100g f \<le> 150 then [''filling low calorie''] else [])"
definition spec_parts :: "'a clean_food_scheme \<Rightarrow> string list" where
  "spec_parts f =
     [lower (name f), lower (category f),
      spec_calorie_token (calories_per_100g f), spec_protein_token (protein_per_100g f),
      spec_fat_token (fat_per_100g f), spec_carb_token (carbs_per_100g f)] @
     spec_fiber_tokens (fiber_per_100g f) @ spec_sugar_tokens (sugar_per_100g f) @
     spec_sodium_tokens (sodium_per_100g f) @ spec_composite_tokens f"

definition apple :: clean_food where
  "apple = \<lparr> external_id = ''171688'', name = ''Apple'', description = ''Apple'', brand = None,
     category = ''Fruits'', calories_per_100g = 52, protein_per_100g = 0.3, fat_per_100g = 0.2,
     carbs_per_100g = 14, fiber_per_100g = 2.4, sugar_per_100g = 10, sodium_per_100g = 1,
     data_source = ''usda'',
     nutrients = \<lparr> calcium_mg = 6, iron_mg = 0.1, potassium_mg = 107, vitamin_c_mg = 4.6,
       saturated_fat_g = 0 \<rparr> \<rparr>"

definition name_missing :: "raw_food \<Rightarrow> bool" where
  "name_missing raw = (case raw_description raw of Absent \<Rightarrow> True | Null \<Rightarrow> True | Val d \<Rightarrow> d = [])"

definition name_blank :: "raw_food \<Rightarrow> bool" where
  "name_blank raw =
     (case raw_description raw of Absent \<Rightarrow> True | Null \<Rightarrow> True | Val d \<Rightarrow> list_all is_space d)"

definition no_nutrient_entries :: "raw_food \<Rightarrow> bool" where
  "no_nutrient_entries raw = (case foodNutrients raw of Absent \<Rightarrow> True | Null \<Rightarrow> True | Val ns \<Rightarrow> ns = [])"

definition calories_zero :: "raw_food \<Rightarrow> bool" where
  "calories_zero raw =
     (case foodNutrients raw of Absent \<Rightarrow> False | Null \<Rightarrow> False
      | Val ns \<Rightarrow> get_nutrient ns ENERGY_KCAL = Inr 0)"

definition no_null_objects :: "raw_food \<Rightarrow> bool" where
  "no_null_objects raw =
     (foodCategory raw \<noteq> Null \<and> foodCategory raw \<noteq> Val Null \<and>
      (case foodNutrients raw of Absent \<Rightarrow> True | Null \<Rightarrow> True
       | Val ns \<Rightarrow> list_all (\<lambda>n. nutrient n \<noteq> Null) ns))"

definition blank_name_food :: raw_food where
  "blank_name_food = \<lparr> raw_description = Val ''  '',
     foodNutrients = Val [\<lparr> nutrient = Val (Val 1008), amount = Val 100 \<rparr>],
     fdcId = Val 1, foodCategory = Absent \<rparr>"

definition nbsp_name_food :: raw_food where
  "nbsp_name_food = blank_name_food\<lparr> raw_description := Val [CHR 0xA0] \<rparr>"

definition raw_butter_nbsp :: raw_food where
  "raw_butter_nbsp = \<lparr> raw_description = Val ([CHR 0x85] @ ''Butter'' @ [CHR 0xA0]),
     foodNutrients = Val [\<lparr> nutrient = Val (Val 1008), amount = Val 717 \<rparr>],
     fdcId = Val 173410, foodCategory = Val Absent \<rparr>"

definition raw_butter :: raw_food where
  "raw_butter = \<lparr> raw_description = Val '' Butter, salted '',
     foodNutrients = Val [\<lparr> nutrient = Val (Val 1008), amount = Val 717 \<rparr>,
                          \<lparr> nutrient = Val (Val 1004), amount = Val 81.11 \<rparr>],
     fdcId = Val 173410, foodCategory = Absent \<rparr>"




section \<open>upload\_foods.py\<close>

subsection \<open>The progress file, the remote table and the two services\<close>

text \<open>The dictionary kept in \<^verbatim>\<open>upload_progress.json\<close>.\<close>

record ledger =
  uploaded_ids :: "string list"
  last_batch :: nat
  total_uploaded :: nat

text \<open>One row of the payload built for the table \<^verbatim>\<open>foods\<close>.\<close>

record upload_row =
  row_external_id :: string
  row_name :: string
  row_description :: string
  row_category :: string
  row_calories_per_100g :: real
  row_protein_per_100g :: real
  row_fat_per_100g :: real
  row_carbs_per_100g :: real
  row_fiber_per_100g :: real
  row_sugar_per_100g :: real
  row_sodium_per_100g :: real
  row_calcium_mg :: real
  row_iron_mg :: real
  row_potassium_mg :: real
  row_vitamin_c_mg :: real
  row_saturated_fat_g :: real
  row_data_source :: string
  row_embedding_text :: string
  row_embedding :: "real list"

text \<open>What the loop of \<^verbatim>\<open>batch_upload_foods\<close> shows for a batch: the progress bar
  advanced, the mismatch warning, or the error message.\<close>

datatype event = Committed nat | Mismatch nat | Failed nat

text \<open>
  Everything outside the process that the script reads or writes: the progress
  file (\<open>None\<close> when it does not exist or cannot be read), the rows of the remote
  table, the requests sent to the embedding service and to the table, the
  messages printed by the batch loop, and the dictionaries that \<^verbatim>\<open>save_progress\<close> was
  asked to write.
\<close>

record world =
  progress_file :: "ledger option"
  foods_table :: "upload_row list"
  embedding_requests :: "string list list"
  upsert_requests :: "upload_row list list"
  events :: "event list"
  progress_writes :: "ledger list"

text \<open>
  What becomes of a write of the progress file: it is written; or it cannot be opened
  and stays as it was; or the write breaks off and leaves a file that cannot be read.
\<close>

datatype write_outcome = Written | Refused | Truncated

text \<open>
  How the outside answers during one run: the embedding service's answer to its
  \<open>k\<close>-th request, whether the \<open>k\<close>-th upsert raises, whether the page query
  at an offset raises, what the operator types at the prompt, and what becomes of the
  \<open>k\<close>-th write of the progress file.
\<close>

record services =
  embeddings_create :: "nat \<Rightarrow> string list \<Rightarrow> error + real list list"
  upsert_fails :: "nat \<Rightarrow> bool"
  select_fails :: "nat \<Rightarrow> bool"
  confirm_input :: string
  write_result :: "nat \<Rightarrow> write_outcome"

subsection \<open>load\_progress, save\_progress\<close>

definition load_progress :: "world \<Rightarrow> ledger" where
  "load_progress w =
     (case progress_file w of
        Some p \<Rightarrow> p
      | None \<Rightarrow> \<lparr> uploaded_ids = [], last_batch = 0, total_uploaded = 0 \<rparr>)"

text \<open>
  \<^verbatim>\<open>save_progress\<close> catches the exception of a failed write, prints a warning and
  returns: the caller goes on in either case.
\<close>

definition save_progress :: "services \<Rightarrow> ledger \<Rightarrow> world \<Rightarrow> world" where
  "save_progress sv progress w =
     (let w' = w\<lparr> progress_writes := progress_writes w @ [progress] \<rparr>
      in case write_result sv (length (progress_writes w)) of
           Written \<Rightarrow> w'\<lparr> progress_file := Some progress \<rparr>
         | Refused \<Rightarrow> w'
         | Truncated \<Rightarrow> w'\<lparr> progress_file := None \<rparr>)"

subsection \<open>get\_existing\_food\_ids\<close>

definition page_size :: nat where
  "page_size = 1000"

text \<open>
  \<open>q offset\<close> is the answer to the query for the rows \<open>offset .. offset + page_size - 1\<close>:
  the \<^verbatim>\<open>external_id\<close> of each row, or an exception. The \<^verbatim>\<open>while True\<close> loop is
  a partial function: \<open>None\<close> is a run that never leaves the loop. An exception
  anywhere leaves the \<^verbatim>\<open>try\<close> block and the function returns the empty set.
\<close>

partial_function (option) fetch_pages ::
  "(nat \<Rightarrow> error + string list) \<Rightarrow> nat \<Rightarrow> string set \<Rightarrow> string set option" where
  "fetch_pages q offset all_ids =
     (case q offset of
        Inl e \<Rightarrow> Some {}
      | Inr data \<Rightarrow>
          if data = [] then Some all_ids
          else if length data < page_size then Some (all_ids \<union> set data)
          else fetch_pages q (offset + page_size) (all_ids \<union> set data))"

declare fetch_pages.simps [code]

definition get_existing_food_ids :: "(nat \<Rightarrow> error + string list) \<Rightarrow> string set option" where
  "get_existing_food_ids q = fetch_pages q 0 {}"

text \<open>The query against the table of the world: 1000 rows from the offset on.\<close>

definition select_page :: "services \<Rightarrow> world \<Rightarrow> nat \<Rightarrow> error + string list" where
  "select_page sv w offset =
     (if select_fails sv offset then Inl ServiceError
      else Inr (map row_external_id (take page_size (drop offset (foods_table w)))))"

subsection \<open>generate\_embeddings\<close>

definition max_retries :: nat where
  "max_retries = 3"

text \<open>The loop \<^verbatim>\<open>for attempt in range(max_retries)\<close>, entered with \<open>attempt = 0\<close>:
  each attempt is one request; the last failed attempt raises. The sleeps are
  left out.\<close>

function generate_embeddings_from ::
  "services \<Rightarrow> string list \<Rightarrow> nat \<Rightarrow> world \<Rightarrow> (error + real list list) \<times> world" where
  "generate_embeddings_from sv texts attempt w =
     (let w' = w\<lparr> embedding_requests := embedding_requests w @ [texts] \<rparr>
      in case embeddings_create sv (length (embedding_requests w)) texts of
           Inr embeddings \<Rightarrow> (Inr embeddings, w')
         | Inl e \<Rightarrow>
             if attempt < max_retries - 1
             then generate_embeddings_from sv texts (attempt + 1) w'
             else (Inl e, w'))"
  by pat_completeness auto
termination
  by (relation "measure (\<lambda>(sv, texts, attempt, w). max_retries - 1 - attempt)") auto

declare generate_embeddings_from.simps [simp del]

definition generate_embeddings ::
  "services \<Rightarrow> string list \<Rightarrow> world \<Rightarrow> (error + real list list) \<times> world" where
  "generate_embeddings sv texts w = generate_embeddings_from sv texts 0 w"

subsection \<open>filter\_new\_foods\<close>

text \<open>The loop over \<^verbatim>\<open>foods\<close>, appending to \<^verbatim>\<open>new_foods\<close>. The function is given
  the dictionary \<^verbatim>\<open>progress\<close>, which it could change in place: the second
  component of the result is that dictionary when the function returns.\<close>

fun filter_loop :: "food list \<Rightarrow> string set \<Rightarrow> string set \<Rightarrow> food list \<Rightarrow> food list" where
  "filter_loop [] existing_ids uploaded new_foods = new_foods"
| "filter_loop (f # fs) existing_ids uploaded new_foods =
     (if external_id f \<notin> existing_ids \<and> external_id f \<notin> uploaded
      then filter_loop fs existing_ids uploaded (new_foods @ [f])
      else filter_loop fs existing_ids uploaded new_foods)"

definition filter_new_foods :: "food list \<Rightarrow> string set \<Rightarrow> ledger \<Rightarrow> food list \<times> ledger" where
  "filter_new_foods foods existing_ids progress =
     (let uploaded = set (uploaded_ids progress)
      in (filter_loop foods existing_ids uploaded [], progress))"

subsection \<open>batch\_upload\_foods\<close>

definition upload_row_of :: "food \<Rightarrow> real list \<Rightarrow> upload_row" where
  "upload_row_of f embedding =
     \<lparr> row_external_id = external_id f, row_name = name f, row_description = description f,
       row_category = category f, row_calories_per_100g = calories_per_100g f,
       row_protein_per_100g = protein_per_100g f, row_fat_per_100g = fat_per_100g f,
       row_carbs_per_100g = carbs_per_100g f, row_fiber_per_100g = fiber_per_100g f,
       row_sugar_per_100g = sugar_per_100g f, row_sodium_per_100g = sodium_per_100g f,
       row_calcium_mg = calcium_mg (nutrients f), row_iron_mg = iron_mg (nutrients f),
       row_potassium_mg = potassium_mg (nutrients f),
       row_vitamin_c_mg = vitamin_c_mg (nutrients f),
       row_saturated_fat_g = saturated_fat_g (nutrients f),
       row_data_source = data_source f, row_embedding_text = embedding_text f,
       row_embedding = embedding \<rparr>"

text \<open>The upsert with \<^verbatim>\<open>on_conflict='external_id'\<close>: a row with the same key is
  replaced, any other row is added.\<close>

fun upsert_row :: "upload_row \<Rightarrow> upload_row list \<Rightarrow> upload_row list" where
  "upsert_row r [] = [r]"
| "upsert_row r (t # ts) =
     (if row_external_id t = row_external_id r then r # ts else t # upsert_row r ts)"

definition upsert :: "upload_row list \<Rightarrow> upload_row list \<Rightarrow> upload_row list" where
  "upsert upload_data table = foldl (\<lambda>t r. upsert_row r t) table upload_data"

text \<open>The slice \<^verbatim>\<open>foods[i * batch_size : min(i * batch_size + batch_size, len(foods))]\<close>.\<close>

definition batch_of :: "food list \<Rightarrow> nat \<Rightarrow> nat \<Rightarrow> food list" where
  "batch_of foods batch_size i =
     (let batch_start = i * batch_size;
          batch_end = min (batch_start + batch_size) (length foods)
      in take (batch_end - batch_start) (drop batch_start foods))"

datatype outcome = Completed | Halted nat

text \<open>
  The loop \<^verbatim>\<open>for i in range(start_batch, total_batches)\<close> with its \<^verbatim>\<open>try\<close> block,
  from batch \<open>i\<close> on, with the dictionary \<^verbatim>\<open>progress\<close> and the counter
  \<^verbatim>\<open>uploaded_count\<close>. An exception of the embedding request or of the upsert is
  caught: the loop returns \<^verbatim>\<open>uploaded_count\<close> at once (\<open>Halted i\<close>). A wrong number
  of embeddings goes on with the next batch.
\<close>

function upload_batches ::
  "services \<Rightarrow> food list \<Rightarrow> nat \<Rightarrow> nat \<Rightarrow> nat \<Rightarrow> ledger \<Rightarrow> nat \<Rightarrow> world
     \<Rightarrow> outcome \<times> nat \<times> world" where
  "upload_batches sv foods batch_size total_batches i progress uploaded_count w =
     (if total_batches \<le> i then (Completed, uploaded_count, w)
      else
        (let batch = batch_of foods batch_size i;
             (res, w1) = generate_embeddings sv (map embedding_text batch) w
         in case res of
              Inl e \<Rightarrow> (Halted i, uploaded_count, w1\<lparr> events := events w1 @ [Failed i] \<rparr>)
            | Inr embeddings \<Rightarrow>
                if length embeddings \<noteq> length batch
                then upload_batches sv foods batch_size total_batches (i + 1) progress
                       uploaded_count (w1\<lparr> events := events w1 @ [Mismatch i] \<rparr>)
                else
                  (let upload_data = map2 upload_row_of batch embeddings;
                       batch_ids = map external_id batch;
                       w2 = w1\<lparr> upsert_requests := upsert_requests w1 @ [upload_data] \<rparr>
                   in if upsert_fails sv (length (upsert_requests w1))
                      then (Halted i, uploaded_count, w2\<lparr> events := events w2 @ [Failed i] \<rparr>)
                      else
                        (let w3 = w2\<lparr> foods_table := upsert upload_data (foods_table w2) \<rparr>;
                             uploaded_count' = uploaded_count + length batch;
                             progress' = progress\<lparr> uploaded_ids := uploaded_ids progress @ batch_ids,
                                                    last_batch := i + 1,
                                                    total_uploaded := uploaded_count' \<rparr>;
                             w4 = save_progress sv progress' w3
                         in upload_batches sv foods batch_size total_batches (i + 1) progress'
                              uploaded_count' (w4\<lparr> events := events w4 @ [Committed i] \<rparr>)))))"
  by pat_completeness auto
termination
  by (relation "measure (\<lambda>(sv, foods, batch_size, total_batches, i, progress, uploaded_count, w).
        total_batches - i)") auto

declare upload_batches.simps [simp del]

text \<open>
  \<^verbatim>\<open>batch_upload_foods\<close>: nothing to do for an empty list; otherwise the progress is
  loaded, the number of batches is \<^verbatim>\<open>(len(foods) + batch_size - 1) // batch_size\<close>
  (a division by zero for \<open>batch_size = 0\<close>), the loop runs from the recorded batch,
  and the progress file is removed when the loop ends without an exception.
  The result is the outcome shown, the count returned and the world left behind.
  The cost estimate only prints and is left out.
\<close>

definition batch_upload_foods ::
  "services \<Rightarrow> food list \<Rightarrow> nat \<Rightarrow> world \<Rightarrow> error + outcome \<times> nat \<times> world" where
  "batch_upload_foods sv foods batch_size w =
     (if foods = [] then Inr (Completed, 0, w)
      else
        (let progress = load_progress w;
             start_batch = last_batch progress;
             uploaded_count = total_uploaded progress
         in if batch_size = 0 then Inl ZeroDivisionError
            else
              (let total_batches = (length foods + batch_size - 1) div batch_size
               in case upload_batches sv foods batch_size total_batches start_batch progress
                         uploaded_count w of
                    (Halted i, n, w') \<Rightarrow> Inr (Halted i, n, w')
                  | (Completed, n, w') \<Rightarrow> Inr (Completed, n, w'\<lparr> progress_file := None \<rparr>))))"

subsection \<open>main\<close>

text \<open>The slice \<^verbatim>\<open>all_foods[:limit]\<close>, taken only when \<^verbatim>\<open>limit\<close> is neither
  \<^verbatim>\<open>None\<close> nor 0; a negative limit counts from the end.\<close>

definition apply_limit :: "food list \<Rightarrow> int option \<Rightarrow> food list" where
  "apply_limit all_foods limit =
     (case limit of
        None \<Rightarrow> all_foods
      | Some l \<Rightarrow>
          if l = 0 then all_foods
          else if l < 0 then take (nat (int (length all_foods) + l)) all_foods
          else take (nat l) all_foods)"

datatype main_result = SysExit nat | AllExist | Crashed error | Uploaded outcome nat

text \<open>
  \<^verbatim>\<open>main\<close> after the command line is read and the clients are set up:
  \<open>loaded\<close> is the list returned by \<^verbatim>\<open>load_cleaned_data\<close>. The result is \<open>None\<close>
  when the page loop never ends.
\<close>

definition main :: "services \<Rightarrow> food list \<Rightarrow> int option \<Rightarrow> world \<Rightarrow> (main_result \<times> world) option" where
  "main sv loaded limit w =
     (if loaded = [] then Some (SysExit 1, w)
      else
        (let all_foods = apply_limit loaded limit
         in case get_existing_food_ids (select_page sv w) of
              None \<Rightarrow> None
            | Some existing_ids \<Rightarrow>
                (let progress = load_progress w;
                     (new_foods, progress) = filter_new_foods all_foods existing_ids progress
                 in if new_foods = [] then Some (AllExist, w)
                    else if last_batch progress = 0 \<and> lower (confirm_input sv) \<noteq> ''y''
                    then Some (SysExit 0, w)
                    else (case batch_upload_foods sv new_foods 50 w of
                            Inl e \<Rightarrow> Some (Crashed e, w)
                          | Inr (oc, uploaded, w') \<Rightarrow> Some (Uploaded oc uploaded, w')))))"

subsection \<open>Pages read, ledgers replayed, example runs\<close>

text \<open>
  Notions used to state the properties: a full page, the ids of the pages read up to the
  page where the loop stops, the ledger after a list of events, and the example inputs,
  services and worlds of two runs of the uploader.
\<close>

definition is_full :: "error + string list \<Rightarrow> bool" where
  "is_full r = (case r of Inl e \<Rightarrow> False | Inr data \<Rightarrow> page_size \<le> length data)"

definition page_ids :: "error + string list \<Rightarrow> string set" where
  "page_ids r = (case r of Inl e \<Rightarrow> {} | Inr data \<Rightarrow> set data)"

definition stops_at :: "(nat \<Rightarrow> error + string list) \<Rightarrow> nat \<Rightarrow> bool" where
  "stops_at q n =
     (list_all (\<lambda>k. is_full (q (k * page_size))) [0..<n] \<and> \<not> is_full (q (n * page_size)))"

definition pages_read :: "(nat \<Rightarrow> error + string list) \<Rightarrow> nat \<Rightarrow> string set" where
  "pages_read q n =
     (case q (n * page_size) of
        Inl e \<Rightarrow> {}
      | Inr data \<Rightarrow> \<Union> (set (map (\<lambda>k. page_ids (q (k * page_size))) [0..<Suc n])))"

definition two_pages :: "nat \<Rightarrow> error + string list" where
  "two_pages offset = (if offset = 0 then Inr (replicate page_size ''a'') else Inr [''b''])"

definition pages_from :: "(nat \<Rightarrow> error + string list) \<Rightarrow> nat \<Rightarrow> string set \<Rightarrow> string set \<Rightarrow> bool" where
  "pages_from q offset acc ids =
     (\<exists>n. (\<forall>k<n. is_full (q (offset + k * page_size))) \<and>
             \<not> is_full (q (offset + n * page_size)) \<and>
             ids = (case q (offset + n * page_size) of
                      Inl e \<Rightarrow> {}
                    | Inr data \<Rightarrow> acc \<union> (\<Union>k\<le>n. page_ids (q (offset + k * page_size)))))"

definition mk_food :: "nat \<Rightarrow> food" where
  "mk_food i =
     \<lparr> external_id = str_nat i, name = ''Butter, salted'', description = ''Butter, salted'',
       brand = None, category = ''Unknown'', calories_per_100g = 717, protein_per_100g = 0,
       fat_per_100g = 81.11, carbs_per_100g = 0, fiber_per_100g = 0, sugar_per_100g = 0,
       sodium_per_100g = 0, data_source = ''usda'',
       nutrients = \<lparr> calcium_mg = 0, iron_mg = 0, potassium_mg = 0, vitamin_c_mg = 0,
         saturated_fat_g = 0 \<rparr>,
       embedding_text = ''butter '' @ str_nat i \<rparr>"

definition foods_range :: "nat \<Rightarrow> nat \<Rightarrow> food list" where
  "foods_range a b = map mk_food [a..<b]"

definition foods_upto :: "nat \<Rightarrow> food list" where
  "foods_upto n = foods_range 0 n"

definition empty_world :: world where
  "empty_world = \<lparr> progress_file = None, foods_table = [], embedding_requests = [],
     upsert_requests = [], events = [], progress_writes = [] \<rparr>"

definition all_fine :: services where
  "all_fine = \<lparr> embeddings_create = (\<lambda>k texts. Inr (map (\<lambda>t. [0]) texts)),
     upsert_fails = (\<lambda>k. False), select_fails = (\<lambda>offset. False), confirm_input = ''y'',
     write_result = (\<lambda>k. Written) \<rparr>"

definition fails_after_first :: services where
  "fails_after_first = all_fine\<lparr> embeddings_create :=
     (\<lambda>k texts. if k = 0 then Inr (map (\<lambda>t. [0]) texts) else Inl ServiceError) \<rparr>"

definition mismatch_then_fail :: services where
  "mismatch_then_fail = all_fine\<lparr> embeddings_create :=
     (\<lambda>k texts. if k = 0 then Inr (map (\<lambda>t. [0]) texts) else if k = 1 then Inr []
                  else Inl ServiceError) \<rparr>"

definition zero_rows :: "food list \<Rightarrow> upload_row list" where
  "zero_rows fs = map (\<lambda>f. upload_row_of f [0]) fs"

definition first_ledger :: ledger where
  "first_ledger = \<lparr> uploaded_ids = map external_id (foods_upto 50), last_batch = 1,
                    total_uploaded = 50 \<rparr>"

definition after_first_run :: world where
  "after_first_run =
     \<lparr> progress_file = Some \<lparr> uploaded_ids = map external_id (foods_upto 50), last_batch = 1,
                               total_uploaded = 50 \<rparr>,
       foods_table = zero_rows (foods_upto 50),
       embedding_requests = [map embedding_text (foods_upto 50), [''butter 50''], [''butter 50''],
                             [''butter 50'']],
       upsert_requests = [zero_rows (foods_upto 50)],
       events = [Committed 0, Failed 1],
       progress_writes = [first_ledger] \<rparr>"

definition after_mismatch_run :: world where
  "after_mismatch_run =
     \<lparr> progress_file = Some \<lparr> uploaded_ids = map external_id (foods_upto 50), last_batch = 1,
                               total_uploaded = 50 \<rparr>,
       foods_table = zero_rows (foods_upto 50),
       embedding_requests = [map embedding_text (foods_upto 50),
                             map embedding_text (foods_range 50 100),
                             [''butter 100''], [''butter 100''], [''butter 100'']],
       upsert_requests = [zero_rows (foods_upto 50)],
       events = [Committed 0, Mismatch 1, Failed 2],
       progress_writes = [first_ledger] \<rparr>"

definition after_mismatch_rerun :: world where
  "after_mismatch_rerun =
     \<lparr> progress_file = None,
       foods_table = zero_rows (foods_upto 50) @ zero_rows [mk_food 100],
       embedding_requests = embedding_requests after_mismatch_run @ [[''butter 100'']],
       upsert_requests = [zero_rows (foods_upto 50), zero_rows [mk_food 100]],
       events = [Committed 0, Mismatch 1, Failed 2, Committed 1],
       progress_writes = [first_ledger,
         \<lparr> uploaded_ids = map external_id (foods_upto 50) @ [''100''], last_batch = 2,
           total_uploaded = 51 \<rparr>] \<rparr>"

text \<open>Services of further example runs: the progress file cannot be opened for writing;
  every embedding request fails; every upsert fails.\<close>

definition write_refused :: services where
  "write_refused = fails_after_first\<lparr> write_result := (\<lambda>k. Refused) \<rparr>"

definition embedding_down :: services where
  "embedding_down = all_fine\<lparr> embeddings_create := (\<lambda>k texts. Inl ServiceError) \<rparr>"

definition upsert_down :: services where
  "upsert_down = all_fine\<lparr> upsert_fails := (\<lambda>k. True) \<rparr>"

definition after_refused_write :: world where
  "after_refused_write = after_first_run\<lparr> progress_file := None \<rparr>"

definition after_embedding_down :: world where
  "after_embedding_down =
     empty_world\<lparr> embedding_requests := [map embedding_text (foods_upto 50),
                                          map embedding_text (foods_upto 50),
                                          map embedding_text (foods_upto 50)],
                  events := [Failed 0] \<rparr>"

definition after_upsert_down :: world where
  "after_upsert_down =
     empty_world\<lparr> embedding_requests := [map embedding_text (foods_upto 50)],
                  upsert_requests := [zero_rows (foods_upto 50)],
                  events := [Failed 0] \<rparr>"

text \<open>A run over two records with the same id, in batches of one.\<close>

definition after_duplicate_run :: world where
  "after_duplicate_run =
     \<lparr> progress_file = Some \<lparr> uploaded_ids = [''0''], last_batch = 1, total_uploaded = 1 \<rparr>,
       foods_table = zero_rows [mk_food 0],
       embedding_requests = [[''butter 0''], [''butter 0''], [''butter 0''], [''butter 0'']],
       upsert_requests = [zero_rows [mk_food 0]],
       events = [Committed 0, Failed 1],
       progress_writes = [\<lparr> uploaded_ids = [''0''], last_batch = 1, total_uploaded = 1 \<rparr>] \<rparr>"

text \<open>Every write of the progress file made between two worlds succeeded.\<close>

definition writes_ok :: "services \<Rightarrow> world \<Rightarrow> world \<Rightarrow> bool" where
  "writes_ok sv w w' =
     list_all (\<lambda>j. write_result sv j = Written)
       [length (progress_writes w)..<length (progress_writes w')]"

text \<open>The embedding service raises on the \<open>j\<close>-th request of the log.\<close>

definition request_fails :: "services \<Rightarrow> world \<Rightarrow> nat \<Rightarrow> bool" where
  "request_fails sv w j = isl (embeddings_create sv j (embedding_requests w ! j))"

definition commit_ledger :: "food list \<Rightarrow> nat \<Rightarrow> ledger \<Rightarrow> nat \<Rightarrow> ledger" where
  "commit_ledger foods batch_size p i =
     p\<lparr> uploaded_ids := uploaded_ids p @ map external_id (batch_of foods batch_size i),
        last_batch := i + 1,
        total_uploaded := total_uploaded p + length (batch_of foods batch_size i) \<rparr>"

fun replay :: "food list \<Rightarrow> nat \<Rightarrow> ledger \<Rightarrow> event list \<Rightarrow> ledger" where
  "replay foods batch_size p [] = p"
| "replay foods batch_size p (Committed i # evs) =
     replay foods batch_size (commit_ledger foods batch_size p i) evs"
| "replay foods batch_size p (Mismatch i # evs) = replay foods batch_size p evs"
| "replay foods batch_size p (Failed i # evs) = replay foods batch_size p evs"

fun committed :: "event list \<Rightarrow> nat list" where
  "committed [] = []"
| "committed (Committed i # evs) = i # committed evs"
| "committed (Mismatch i # evs) = committed evs"
| "committed (Failed i # evs) = committed evs"

fun before_batch :: "nat \<Rightarrow> event \<Rightarrow> bool" where
  "before_batch k (Committed i) = (i < k)"
| "before_batch k (Mismatch i) = (i < k)"
| "before_batch k (Failed i) = False"

fun from_batch :: "nat \<Rightarrow> event \<Rightarrow> bool" where
  "from_batch k (Committed i) = (k \<le> i)"
| "from_batch k (Mismatch i) = (k \<le> i)"
| "from_batch k (Failed i) = False"

section \<open>Properties of usda\_cleaner.py\<close>

subsection \<open>The embedding text and its buckets\<close>

lemma if_snoc: "(if c then xs @ [a] else xs) = xs @ (if c then [a] else [])"
  by simp

lemma if_append: "(if c then xs @ ys else xs @ zs) = xs @ (if c then ys else zs)"
  by simp

lemma spec_calorie_token_code:
  "spec_calorie_token c = (if c \<le> 50 then ''very low calorie''
                           else if c \<le> 100 then ''low calorie''
                           else if c \<le> 200 then ''moderate calorie''
                           else if c \<le> 400 then ''high calorie''
                           else ''very high calorie'')"
  by (simp add: spec_calorie_token_def)

lemma spec_protein_token_code:
  "spec_protein_token p = (if p \<ge> 20 then ''very high protein''
                           else if p \<ge> 15 then ''high protein''
                           else if p \<ge> 10 then ''moderate protein''
                           else if p \<ge> 5 then ''some protein''
                           else ''low protein'')"
  by (simp add: spec_protein_token_def)

lemma spec_fat_token_code:
  "spec_fat_token x = (if x \<le> 3 then ''low fat'' else if x \<le> 10 then ''moderate fat'' else ''high fat'')"
  by (simp add: spec_fat_token_def)

lemma spec_carb_token_code:
  "spec_carb_token x = (if x \<le> 5 then ''very low carb keto friendly''
                           else if x \<le> 20 then ''low carb''
                           else if x \<le> 45 then ''moderate carb''
                           else ''high carb'')"
  by (simp add: spec_carb_token_def)

lemma spec_fiber_tokens_code:
  "spec_fiber_tokens x = (if x \<ge> 10 then [''very high fiber''] else if x \<ge> 5 then [''high fiber''] else [])"
  by (simp add: spec_fiber_tokens_def)

lemma embedding_parts_spec: "embedding_parts f = spec_parts f"
  unfolding embedding_parts_def Let_def 
  apply (simp only: if_append if_snoc)
  apply (simp only: spec_parts_def
    spec_calorie_token_code spec_protein_token_code spec_fat_token_code spec_carb_token_code
    spec_fiber_tokens_code spec_sugar_tokens_def spec_sodium_tokens_def spec_composite_tokens_def)
  apply (simp only: append.simps append_assoc)
  done


lemma calorie_token_of_bucket:
  "spec_calorie_token a = [''very low calorie'', ''low calorie'', ''moderate calorie'',
     ''high calorie'', ''very high calorie''] ! calorie_bucket a"
  unfolding calorie_bucket_def spec_calorie_token_def
  by (cases "a \<le> 50"; cases "a \<le> 100"; cases "a \<le> 200"; cases "a \<le> 400"; simp)
lemma protein_token_of_bucket:
  "spec_protein_token a = [''very high protein'', ''high protein'', ''moderate protein'',
     ''some protein'', ''low protein''] ! protein_bucket a"
  unfolding protein_bucket_def spec_protein_token_def
  by (cases "20 \<le> a"; cases "15 \<le> a"; cases "10 \<le> a"; cases "5 \<le> a"; simp)
lemma fat_token_of_bucket:
  "spec_fat_token a = [''low fat'', ''moderate fat'', ''high fat''] ! fat_bucket a"
  unfolding fat_bucket_def spec_fat_token_def
  by (cases "a \<le> 3"; cases "a \<le> 10"; simp)
lemma carb_token_of_bucket:
  "spec_carb_token a = [''very low carb keto friendly'', ''low carb'', ''moderate carb'',
     ''high carb''] ! carb_bucket a"
  unfolding carb_bucket_def spec_carb_token_def
  by (cases "a \<le> 5"; cases "a \<le> 20"; cases "a \<le> 45"; simp)
lemma fiber_tokens_of_bucket:
  "spec_fiber_tokens a = [[''very high fiber''], [''high fiber''], []] ! fiber_bucket a"
  unfolding fiber_bucket_def spec_fiber_tokens_def
  by (cases "10 \<le> a"; cases "5 \<le> a"; simp)
lemma sugar_tokens_of_bucket:
  "spec_sugar_tokens a = [[''high sugar sweet''], [''sugar free''], []] ! sugar_bucket a"
  unfolding sugar_bucket_def spec_sugar_tokens_def
  by (cases "15 \<le> a"; cases "a \<le> 2"; simp)
lemma sodium_tokens_of_bucket:
  "spec_sodium_tokens a = [[''high sodium salty''], [''low sodium''], []] ! sodium_bucket a"
  unfolding sodium_bucket_def spec_sodium_tokens_def
  by (cases "600 \<le> a"; cases "a \<le> 140"; simp)
lemma calorie_token_bucket:
  "calorie_bucket a = calorie_bucket b \<Longrightarrow> spec_calorie_token a = spec_calorie_token b"
  by (simp only: calorie_token_of_bucket)
lemma protein_token_bucket:
  "protein_bucket a = protein_bucket b \<Longrightarrow> spec_protein_token a = spec_protein_token b"
  by (simp only: protein_token_of_bucket)
lemma fat_token_bucket:
  "fat_bucket a = fat_bucket b \<Longrightarrow> spec_fat_token a = spec_fat_token b"
  by (simp only: fat_token_of_bucket)
lemma carb_token_bucket:
  "carb_bucket a = carb_bucket b \<Longrightarrow> spec_carb_token a = spec_carb_token b"
  by (simp only: carb_token_of_bucket)
lemma fiber_token_bucket:
  "fiber_bucket a = fiber_bucket b \<Longrightarrow> spec_fiber_tokens a = spec_fiber_tokens b"
  by (simp only: fiber_tokens_of_bucket)
lemma sugar_token_bucket:
  "sugar_bucket a = sugar_bucket b \<Longrightarrow> spec_sugar_tokens a = spec_sugar_tokens b"
  by (simp only: sugar_tokens_of_bucket)
lemma sodium_token_bucket:
  "sodium_bucket a = sodium_bucket b \<Longrightarrow> spec_sodium_tokens a = spec_sodium_tokens b"
  by (simp only: sodium_tokens_of_bucket)
lemma composite_token_bucket:
  "lean_protein_snack f = lean_protein_snack g \<Longrightarrow> ketogenic_food f = ketogenic_food g \<Longrightarrow>
   filling_low_calorie f = filling_low_calorie g \<Longrightarrow>
   spec_composite_tokens f = spec_composite_tokens g"
  by (simp add: lean_protein_snack_def ketogenic_food_def filling_low_calorie_def
      spec_composite_tokens_def)

lemma spec_parts_same_buckets:
  assumes "same_buckets f g"
    and "lower (name f) = lower (name g)"
    and "lower (category f) = lower (category g)"
  shows "spec_parts f = spec_parts g"
proof -
  have "spec_calorie_token (calories_per_100g f) = spec_calorie_token (calories_per_100g g)"
    by (rule calorie_token_bucket) (use assms(1) in \<open>simp_all add: same_buckets_def\<close>)
  moreover have "spec_protein_token (protein_per_100g f) = spec_protein_token (protein_per_100g g)"
    by (rule protein_token_bucket) (use assms(1) in \<open>simp_all add: same_buckets_def\<close>)
  moreover have "spec_fat_token (fat_per_100g f) = spec_fat_token (fat_per_100g g)"
    by (rule fat_token_bucket) (use assms(1) in \<open>simp_all add: same_buckets_def\<close>)
  moreover have "spec_carb_token (carbs_per_100g f) = spec_carb_token (carbs_per_100g g)"
    by (rule carb_token_bucket) (use assms(1) in \<open>simp_all add: same_buckets_def\<close>)
  moreover have "spec_fiber_tokens (fiber_per_100g f) = spec_fiber_tokens (fiber_per_100g g)"
    by (rule fiber_token_bucket) (use assms(1) in \<open>simp_all add: same_buckets_def\<close>)
  moreover have "spec_sugar_tokens (sugar_per_100g f) = spec_sugar_tokens (sugar_per_100g g)"
    by (rule sugar_token_bucket) (use assms(1) in \<open>simp_all add: same_buckets_def\<close>)
  moreover have "spec_sodium_tokens (sodium_per_100g f) = spec_sodium_tokens (sodium_per_100g g)"
    by (rule sodium_token_bucket) (use assms(1) in \<open>simp_all add: same_buckets_def\<close>)
  moreover have "spec_composite_tokens f = spec_composite_tokens g"
    by (rule composite_token_bucket) (use assms(1) in \<open>simp_all add: same_buckets_def\<close>)
  ultimately show ?thesis
    using assms(2,3) by (simp only: spec_parts_def)
qed


lemmas bucket_defs = same_buckets_def calorie_bucket_def protein_bucket_def fat_bucket_def
  carb_bucket_def fiber_bucket_def sugar_bucket_def sodium_bucket_def lean_protein_snack_def
  ketogenic_food_def filling_low_calorie_def

text \<open>
  Claim C4, as amended. Two records with the same lowercased name, the same lowercased
  category and the same bucket for every threshold rule (calories, protein, fat, carbs,
  fiber, sugar, sodium and the three composite tags) get the same embedding text,
  whatever their exact numbers are.
\<close>

theorem embedding_text_same_buckets:
  assumes "same_buckets f g"
    and "lower (name f) = lower (name g)"
    and "lower (category f) = lower (category g)"
  shows "create_embedding_text f = create_embedding_text g"
  using spec_parts_same_buckets [OF assms]
  by (simp only: create_embedding_text_def embedding_parts_spec)

text \<open>
  Witness for claim C4: an apple at 52 kcal and 10 g of sugar and the same apple at 60 kcal
  and 11 g of sugar are in the same buckets and get the same text.
\<close>

theorem embedding_text_same_buckets_witness:
  "same_buckets apple (apple\<lparr>calories_per_100g := 60, sugar_per_100g := 11\<rparr>) \<and>
   create_embedding_text apple =
     create_embedding_text (apple\<lparr>calories_per_100g := 60, sugar_per_100g := 11\<rparr>)"
proof -
  have b: "same_buckets apple (apple\<lparr>calories_per_100g := 60, sugar_per_100g := 11\<rparr>)"
    by (simp add: bucket_defs apple_def)
  show ?thesis
    using b embedding_text_same_buckets [OF b] by simp
qed

text \<open>
  Counterexample to claim C4 as stated: two records with the same numbers, hence in the
  same bucket for every rule, and different names get different texts, because the text
  starts with the name and the category.
\<close>

theorem embedding_text_name_counterexample:
  "same_buckets apple (apple\<lparr>name := ''Pear''\<rparr>) \<and>
   create_embedding_text apple \<noteq> create_embedding_text (apple\<lparr>name := ''Pear''\<rparr>)"
  by (simp add: bucket_defs apple_def create_embedding_text_def embedding_parts_def
        lower_def lower_char_def is_upper_def)

lemma calorie_token_50: "spec_calorie_token 50 = ''very low calorie''"
  by (simp add: spec_calorie_token_def)

lemma protein_token_20: "spec_protein_token 20 = ''very high protein''"
  by (simp add: spec_protein_token_def)

lemma low_calorie_not_protein: "spec_protein_token p \<noteq> ''low calorie''"
  unfolding spec_protein_token_def
  by (cases "20 \<le> p"; cases "15 \<le> p"; cases "10 \<le> p"; cases "5 \<le> p"; simp)

lemma low_calorie_not_fat: "spec_fat_token x \<noteq> ''low calorie''"
  unfolding spec_fat_token_def by (cases "x \<le> 3"; cases "x \<le> 10"; simp)

lemma low_calorie_not_carb: "spec_carb_token x \<noteq> ''low calorie''"
  unfolding spec_carb_token_def by (cases "x \<le> 5"; cases "x \<le> 20"; cases "x \<le> 45"; simp)

lemma low_calorie_not_fiber: "''low calorie'' \<notin> set (spec_fiber_tokens x)"
  unfolding spec_fiber_tokens_def by (cases "10 \<le> x"; cases "5 \<le> x"; simp)

lemma low_calorie_not_sugar: "''low calorie'' \<notin> set (spec_sugar_tokens x)"
  unfolding spec_sugar_tokens_def by (cases "15 \<le> x"; cases "x \<le> 2"; simp)

lemma low_calorie_not_sodium: "''low calorie'' \<notin> set (spec_sodium_tokens x)"
  unfolding spec_sodium_tokens_def by (cases "600 \<le> x"; cases "x \<le> 140"; simp)

lemma low_calorie_not_composite: "''low calorie'' \<notin> set (spec_composite_tokens f)"
  unfolding spec_composite_tokens_def
  by (cases "15 \<le> protein_per_100g f \<and> calories_per_100g f \<le> 200";
      cases "15 \<le> fat_per_100g f \<and> carbs_per_100g f \<le> 10";
      cases "5 \<le> fiber_per_100g f \<and> calories_per_100g f \<le> 150"; simp)

text \<open>
  Claim C5. For every record, 50 kcal gives the token \<^verbatim>\<open>very low calorie\<close> and not
  \<^verbatim>\<open>low calorie\<close>, 50.01 kcal gives \<^verbatim>\<open>low calorie\<close>, 20 g of protein gives
  \<^verbatim>\<open>very high protein\<close>, and the text is the one built from the intervals of the
  specification, each bound inclusive or exclusive as written there.
\<close>

theorem bucket_boundaries:
  "embedding_parts (f\<lparr>calories_per_100g := 50\<rparr>) ! 2 = ''very low calorie'' \<and>
   ''low calorie'' \<notin> set (drop 2 (embedding_parts (f\<lparr>calories_per_100g := 50\<rparr>))) \<and>
   embedding_parts (f\<lparr>calories_per_100g := 50.01\<rparr>) ! 2 = ''low calorie'' \<and>
   embedding_parts (f\<lparr>protein_per_100g := 20\<rparr>) ! 3 = ''very high protein'' \<and>
   create_embedding_text f = join '' '' (spec_parts f)"
proof -
  have a: "embedding_parts (f\<lparr>calories_per_100g := 50\<rparr>) ! 2 = ''very low calorie''"
    by (simp add: embedding_parts_spec spec_parts_def calorie_token_50)
  have b: "''low calorie'' \<notin> set (drop 2 (embedding_parts (f\<lparr>calories_per_100g := 50\<rparr>)))"
    by (simp add: embedding_parts_spec spec_parts_def calorie_token_50 low_calorie_not_protein
        low_calorie_not_fat low_calorie_not_carb low_calorie_not_fiber low_calorie_not_sugar
        low_calorie_not_sodium low_calorie_not_composite
        low_calorie_not_protein [symmetric] low_calorie_not_fat [symmetric]
        low_calorie_not_carb [symmetric])
  have c: "embedding_parts (f\<lparr>calories_per_100g := 50.01\<rparr>) ! 2 = ''low calorie''"
    by (simp add: embedding_parts_spec spec_parts_def spec_calorie_token_def)
  have d: "embedding_parts (f\<lparr>protein_per_100g := 20\<rparr>) ! 3 = ''very high protein''"
    by (simp add: embedding_parts_spec spec_parts_def protein_token_20)
  have e: "create_embedding_text f = join '' '' (spec_parts f)"
    by (simp only: create_embedding_text_def embedding_parts_spec)
  from a b c d e show ?thesis by (intro conjI)
qed


subsection \<open>What clean\_food\_data rejects and what it returns\<close>

lemma get_nutrient_total:
  "list_all (\<lambda>n. nutrient n \<noteq> Null) ns \<Longrightarrow> \<exists>v. get_nutrient ns i = Inr v"
  by (induction ns) (auto split: field.splits)

text \<open>What \<open>strip\<close> does, in terms of the characters: the result is the text between a
  prefix and a suffix of whitespace, and it neither starts nor ends with whitespace.\<close>

lemma dropWhile_all: "(\<forall>x\<in>set (dropWhile P xs). P x) = (\<forall>x\<in>set xs. P x)"
proof
  assume a: "\<forall>x\<in>set (dropWhile P xs). P x"
  have "dropWhile P xs = []"
  proof (rule ccontr)
    assume n: "dropWhile P xs \<noteq> []"
    then have "\<not> P (hd (dropWhile P xs))" by (rule hd_dropWhile)
    moreover from n have "hd (dropWhile P xs) \<in> set (dropWhile P xs)" by (rule hd_in_set)
    ultimately show False using a by blast
  qed
  then show "\<forall>x\<in>set xs. P x" by (simp add: dropWhile_eq_Nil_conv)
next
  assume "\<forall>x\<in>set xs. P x"
  then show "\<forall>x\<in>set (dropWhile P xs). P x" by (meson set_dropWhileD)
qed

lemma strip_Nil_iff: "(strip d = []) = list_all is_space d"
  by (simp add: strip_def dropWhile_eq_Nil_conv list_all_iff dropWhile_all)

lemma strip_split:
  "dropWhile is_space d =
     strip d @ rev (takeWhile is_space (rev (dropWhile is_space d)))"
proof -
  let ?m = "dropWhile is_space d"
  have "rev ?m = takeWhile is_space (rev ?m) @ dropWhile is_space (rev ?m)"
    by simp
  then have "rev (rev ?m) = rev (takeWhile is_space (rev ?m) @ dropWhile is_space (rev ?m))"
    by (rule arg_cong)
  then have "?m = rev (dropWhile is_space (rev ?m)) @ rev (takeWhile is_space (rev ?m))"
    by (simp only: rev_rev_ident rev_append)
  then show ?thesis
    by (simp only: strip_def)
qed

lemma strip_parts:
  "\<exists>pre post. d = pre @ strip d @ post \<and> list_all is_space pre \<and> list_all is_space post"
proof -
  let ?m = "dropWhile is_space d"
  let ?post = "rev (takeWhile is_space (rev ?m))"
  have "d = takeWhile is_space d @ ?m"
    by simp
  also have "?m = strip d @ ?post"
    by (rule strip_split)
  finally have "d = takeWhile is_space d @ strip d @ ?post" .
  moreover have "list_all is_space (takeWhile is_space d)"
    by (simp add: list_all_iff) (meson set_takeWhileD)
  moreover have "list_all is_space ?post"
    by (simp add: list_all_iff) (meson set_takeWhileD)
  ultimately show ?thesis
    by blast
qed

lemma strip_ends:
  assumes "strip d \<noteq> []"
  shows "\<not> is_space (hd (strip d)) \<and> \<not> is_space (last (strip d))"
proof -
  let ?m = "dropWhile is_space d"
  let ?k = "dropWhile is_space (rev ?m)"
  from assms have k: "?k \<noteq> []"
    by (simp add: strip_def)
  have m: "?m \<noteq> []"
  proof
    assume e: "?m = []"
    have "?k = []" unfolding e by simp
    with k show False by (simp only: not_False_eq_True)
  qed
  have "last (strip d) = hd ?k"
    using k by (simp add: strip_def last_rev)
  moreover have "\<not> is_space (hd ?k)"
    using k by (rule hd_dropWhile)
  moreover have "hd (strip d) = hd ?m"
  proof -
    have "hd ?m = hd (strip d @ rev (takeWhile is_space (rev ?m)))"
      by (rule arg_cong [OF strip_split])
    with assms show ?thesis
      by simp
  qed
  moreover have "\<not> is_space (hd ?m)"
    using m by (rule hd_dropWhile)
  ultimately show ?thesis
    by simp
qed

lemma bind_res_Inr: "bind_res (Inr v) k = k v"
  by (simp add: bind_res_def)

lemma bind_res_Inl: "bind_res (Inl e) k = Inl e"
  by (simp add: bind_res_def)

lemma clean_food_data_None_iff:
  assumes "clean_food_data raw = Inr res"
  shows "(res = None) = (name_blank raw \<or> no_nutrient_entries raw \<or> calories_zero raw)"
  using assms
  unfolding clean_food_data_def name_blank_def no_nutrient_entries_def calories_zero_def Let_def
  by (auto simp: bind_res_def strip_Nil_iff split: field.splits sum.splits if_splits)


lemma bind_res_total:
  "\<exists>v. r = Inr v \<Longrightarrow> (\<And>v. \<exists>res. k v = Inr res) \<Longrightarrow> \<exists>res. bind_res r k = Inr res"
  by (auto simp: bind_res_def)

lemma clean_food_data_total:
  assumes "no_null_objects raw"
  shows "\<exists>res. clean_food_data raw = Inr res"
proof (cases "foodNutrients raw")
  case Absent
  then show ?thesis
    by (simp add: clean_food_data_def split: field.splits)
next
  case Null
  then show ?thesis
    by (simp add: clean_food_data_def split: field.splits)
next
  case (Val ns)
  with assms have ok: "\<And>i. \<exists>v. get_nutrient ns i = Inr v"
    by (simp add: no_null_objects_def get_nutrient_total)
  from ok obtain calories where c1: "get_nutrient ns ENERGY_KCAL = Inr calories" by blast
  from ok obtain protein where c2: "get_nutrient ns PROTEIN = Inr protein" by blast
  from ok obtain fat where c3: "get_nutrient ns FAT = Inr fat" by blast
  from ok obtain carbs where c4: "get_nutrient ns CARBS = Inr carbs" by blast
  from ok obtain fiber where c5: "get_nutrient ns FIBER = Inr fiber" by blast
  from ok obtain sugar0 where c6: "get_nutrient ns SUGAR = Inr sugar0" by blast
  from ok obtain sugar where c7: "(if sugar0 = 0 then get_nutrient ns 2000 else Inr sugar0) = Inr sugar"
    by (cases "sugar0 = 0") auto
  from ok obtain sodium where c8: "get_nutrient ns SODIUM = Inr sodium" by blast
  from ok obtain calcium where c9: "get_nutrient ns CALCIUM = Inr calcium" by blast
  from ok obtain iron where c10: "get_nutrient ns IRON = Inr iron" by blast
  from ok obtain potassium where c11: "get_nutrient ns POTASSIUM = Inr potassium" by blast
  from ok obtain vitamin_c where c12: "get_nutrient ns VITAMIN_C = Inr vitamin_c" by blast
  from ok obtain saturated_fat where c13: "get_nutrient ns SATURATED_FAT = Inr saturated_fat" by blast
  from assms have cat: "foodCategory raw \<noteq> Null" "foodCategory raw \<noteq> Val Null"
    by (simp_all add: no_null_objects_def)
  show ?thesis
    unfolding clean_food_data_def Let_def using Val cat
    by (simp add: bind_res_def c1 c2 c3 c4 c5 c6 c7 c8 c9 c10 c11 c12 c13 split: field.splits)
qed

text \<open>
  Claim C6, as amended. Whenever \<^verbatim>\<open>clean_food_data\<close> returns, it returns \<^verbatim>\<open>None\<close>
  exactly when the description is absent, null, or made of whitespace characters only
  (the empty description included), when there is no nutrient entry, or when the
  calorie value found is exactly zero, and a record otherwise. It returns for every raw
  record in which no sub-object is null.
\<close>

theorem clean_food_data_rejects:
  "(clean_food_data raw = Inr res \<longrightarrow>
      (res = None) = (name_blank raw \<or> no_nutrient_entries raw \<or> calories_zero raw)) \<and>
   (no_null_objects raw \<longrightarrow> (\<exists>res. clean_food_data raw = Inr res))"
  using clean_food_data_None_iff clean_food_data_total by blast

lemmas nutrient_ids = ENERGY_KCAL_def PROTEIN_def FAT_def CARBS_def FIBER_def SUGAR_def
  SODIUM_def CALCIUM_def IRON_def POTASSIUM_def VITAMIN_C_def SATURATED_FAT_def

lemma clean_blank_name_food: "clean_food_data blank_name_food = Inr None"
  by (simp add: clean_food_data_def blank_name_food_def bind_res_def strip_def is_space_def
      nutrient_ids)

lemma clean_nbsp_name_food: "clean_food_data nbsp_name_food = Inr None"
  by (simp add: clean_food_data_def nbsp_name_food_def blank_name_food_def bind_res_def
      strip_def is_space_def nutrient_ids)

text \<open>
  Witness for claim C6: a description of two blanks and a description of one no-break
  space are rejected as made of whitespace only, and salted butter, which has no null
  sub-object, is not an exception.
\<close>

theorem clean_food_data_rejects_witness:
  "clean_food_data blank_name_food = Inr None \<and> name_blank blank_name_food \<and>
   clean_food_data nbsp_name_food = Inr None \<and> name_blank nbsp_name_food \<and>
   \<not> no_nutrient_entries nbsp_name_food \<and> \<not> calories_zero nbsp_name_food \<and>
   no_null_objects raw_butter \<and> (\<exists>res. clean_food_data raw_butter = Inr res)"
proof -
  have h: "no_null_objects raw_butter"
    by (simp add: no_null_objects_def raw_butter_def)
  have b: "name_blank blank_name_food"
    by (simp add: name_blank_def blank_name_food_def is_space_def)
  have n: "\<not> no_nutrient_entries nbsp_name_food" "\<not> calories_zero nbsp_name_food"
    by (simp_all add: no_nutrient_entries_def calories_zero_def nbsp_name_food_def
        blank_name_food_def nutrient_ids)
  show ?thesis
    using clean_food_data_rejects [of blank_name_food None]
      clean_food_data_rejects [of nbsp_name_food None] clean_food_data_rejects [of raw_butter]
      clean_blank_name_food clean_nbsp_name_food h b n
    by simp
qed

text \<open>
  Counterexample to claim C6 as stated: the description of two blanks is neither absent
  nor empty, there is a nutrient entry and the calories are 100, yet the result is
  \<^verbatim>\<open>None\<close>.
\<close>

theorem clean_food_data_blank_counterexample:
  "\<not> ((clean_food_data blank_name_food = Inr None) =
       (name_missing blank_name_food \<or> no_nutrient_entries blank_name_food \<or>
        calories_zero blank_name_food))"
  by (simp add: clean_blank_name_food)
     (simp add: name_missing_def no_nutrient_entries_def calories_zero_def blank_name_food_def
        nutrient_ids)

lemma clean_food_output_core:
  assumes "clean_food_data raw = Inr (Some r)"
  shows "description r = name r \<and>
         (\<exists>d. raw_description raw = Val d \<and> name r = strip d \<and> strip d \<noteq> []) \<and>
         data_source r = ''usda'' \<and>
         (foodCategory raw = Absent \<or> foodCategory raw = Val Absent \<longrightarrow> category r = ''Unknown'')"
  using assms unfolding clean_food_data_def Let_def
  by (auto simp: bind_res_def clean_food.defs split: field.splits sum.splits if_splits)

text \<open>
  Claim C8. In every record returned by \<^verbatim>\<open>clean_food_data\<close> the description equals the
  name. The name is the raw description without its leading and trailing whitespace:
  the raw description is a run of whitespace characters, the name, and a run of
  whitespace characters, and the name is not empty and neither starts nor ends with a
  whitespace character. The data source is \<^verbatim>\<open>usda\<close>, and the category is \<^verbatim>\<open>Unknown\<close>
  when the raw record has no food category or one without a description.
\<close>

theorem clean_food_output_fields:
  assumes "clean_food_data raw = Inr (Some r)"
  shows "description r = name r \<and>
         (\<exists>d pre post. raw_description raw = Val d \<and> name r = strip d \<and>
            d = pre @ name r @ post \<and> list_all is_space pre \<and> list_all is_space post) \<and>
         name r \<noteq> [] \<and> \<not> is_space (hd (name r)) \<and> \<not> is_space (last (name r)) \<and>
         data_source r = ''usda'' \<and>
         (foodCategory raw = Absent \<or> foodCategory raw = Val Absent \<longrightarrow> category r = ''Unknown'')"
proof -
  from clean_food_output_core [OF assms] obtain d where
    core: "description r = name r" "raw_description raw = Val d" "name r = strip d"
      "strip d \<noteq> []" "data_source r = ''usda''"
      "foodCategory raw = Absent \<or> foodCategory raw = Val Absent \<longrightarrow> category r = ''Unknown''"
    by blast
  from strip_parts [of d] obtain pre post where
    parts: "d = pre @ strip d @ post" "list_all is_space pre" "list_all is_space post"
    by blast
  from strip_ends [OF core(4)] have ends:
    "\<not> is_space (hd (strip d))" "\<not> is_space (last (strip d))"
    by simp_all
  have "\<exists>d pre post. raw_description raw = Val d \<and> name r = strip d \<and>
            d = pre @ name r @ post \<and> list_all is_space pre \<and> list_all is_space post"
    using core(2,3) parts by (metis (full_types))
  with core ends show ?thesis
    by simp
qed

lemma clean_raw_butter: "\<exists>r. clean_food_data raw_butter = Inr (Some r)"
  by (simp add: clean_food_data_def raw_butter_def bind_res_def strip_def is_space_def
      nutrient_ids Let_def)

lemma clean_raw_butter_nbsp: "\<exists>r. clean_food_data raw_butter_nbsp = Inr (Some r)"
  by (simp add: clean_food_data_def raw_butter_nbsp_def bind_res_def strip_def is_space_def
      nutrient_ids Let_def)

text \<open>
  Witness for claim C8: the record returned for salted butter, given with a blank at each
  end, and the record returned for butter given between a next-line character and a
  no-break space.
\<close>

theorem clean_food_output_fields_witness:
  "(\<exists>r. clean_food_data raw_butter = Inr (Some r) \<and> description r = ''Butter, salted'' \<and>
      name r = ''Butter, salted'' \<and> data_source r = ''usda'' \<and> category r = ''Unknown'') \<and>
   (\<exists>r. clean_food_data raw_butter_nbsp = Inr (Some r) \<and> description r = ''Butter'' \<and>
      name r = ''Butter'' \<and> data_source r = ''usda'' \<and> category r = ''Unknown'')"
proof -
  from clean_raw_butter obtain r where r: "clean_food_data raw_butter = Inr (Some r)" ..
  from clean_raw_butter_nbsp obtain r' where
    r': "clean_food_data raw_butter_nbsp = Inr (Some r')" ..
  have s: "strip '' Butter, salted '' = ''Butter, salted''"
    by (simp add: strip_def is_space_def)
  have s': "strip ([CHR 0x85] @ ''Butter'' @ [CHR 0xA0]) = ''Butter''"
    by (simp add: strip_def is_space_def)
  from clean_food_output_fields [OF r] s have
    "description r = ''Butter, salted'' \<and> name r = ''Butter, salted'' \<and>
     data_source r = ''usda'' \<and> category r = ''Unknown''"
    by (auto simp: raw_butter_def)
  moreover from clean_food_output_fields [OF r'] s' have
    "description r' = ''Butter'' \<and> name r' = ''Butter'' \<and>
     data_source r' = ''usda'' \<and> category r' = ''Unknown''"
    by (auto simp: raw_butter_nbsp_def)
  ultimately show ?thesis
    using r r' by blast
qed

section \<open>Properties of upload\_foods.py\<close>

subsection \<open>Filtering and limits\<close>

lemma filter_loop_eq:
  "filter_loop foods E U acc = acc @ filter (\<lambda>f. external_id f \<notin> E \<and> external_id f \<notin> U) foods"
  by (induction foods arbitrary: acc) auto

text \<open>
  Claim C9. \<^verbatim>\<open>filter_new_foods\<close> returns exactly the input records whose id is neither
  in the existing set nor in the ledger's uploaded ids, in the order of the input, and
  leaves the ledger as it was.
\<close>

theorem filter_new_foods_exact:
  "fst (filter_new_foods foods existing_ids progress) =
     filter (\<lambda>f. external_id f \<notin> existing_ids \<and> external_id f \<notin> set (uploaded_ids progress)) foods \<and>
   subseq (fst (filter_new_foods foods existing_ids progress)) foods \<and>
   snd (filter_new_foods foods existing_ids progress) = progress"
  by (simp add: filter_new_foods_def filter_loop_eq)

lemma clean_foods_loop_zero:
  "clean_foods_loop fs (Some 0) c s = clean_foods_loop fs None c s"
  by (induction fs arbitrary: c s) (auto split: sum.splits option.splits)

lemma clean_foods_loop_all:
  "clean_foods_loop fs None c s = Inr (c', s') \<Longrightarrow> length c' + s' = length c + s + length fs"
  by (induction fs arbitrary: c s) (auto split: sum.splits option.splits)

text \<open>
  Claim C10. A limit of 0 is the same as no limit: the cleaning loop then visits every
  input record (each is cleaned or counted as skipped), and the uploader keeps the whole
  list.
\<close>

theorem limit_zero_disables:
  "process_usda_json foods (Some 0) = process_usda_json foods None \<and>
   (process_usda_json foods (Some 0) = Inr (cleaned, skipped) \<longrightarrow>
      length cleaned + skipped = length foods) \<and>
   apply_limit all_foods (Some 0) = all_foods \<and>
   main sv all_foods (Some 0) w = main sv all_foods None w"
  using clean_foods_loop_all [of foods "[]" 0 cleaned skipped]
  by (simp add: process_usda_json_def clean_foods_loop_zero apply_limit_def main_def)

subsection \<open>Paging through the remote table\<close>

lemma fetch_pages_stops:
  assumes "\<forall>k<n. is_full (q (offset + k * page_size))"
    and "\<not> is_full (q (offset + n * page_size))"
  shows "fetch_pages q offset acc =
           Some (case q (offset + n * page_size) of
                   Inl e \<Rightarrow> {}
                 | Inr data \<Rightarrow> acc \<union> (\<Union>k\<le>n. page_ids (q (offset + k * page_size))))"
  using assms
proof (induction n arbitrary: offset acc)
  case 0
  then show ?case
    by (subst fetch_pages.simps) (auto simp: is_full_def page_ids_def split: sum.splits)
next
  case (Suc n)
  from Suc.prems(1) have "is_full (q (offset + 0 * page_size))"
    by blast
  then have full: "is_full (q offset)"
    by simp
  then obtain data where data: "q offset = Inr data" "page_size \<le> length data"
    by (auto simp: is_full_def split: sum.splits)
  have ps: "0 < page_size" by (simp add: page_size_def)
  with data have ne: "data \<noteq> []" by auto
  have step: "fetch_pages q offset acc = fetch_pages q (offset + page_size) (acc \<union> set data)"
    using data ne by (subst fetch_pages.simps) simp
  have shift: "\<And>k. offset + page_size + k * page_size = offset + Suc k * page_size"
    by simp
  have a: "\<forall>k<n. is_full (q (offset + page_size + k * page_size))"
    using Suc.prems(1) unfolding shift by auto
  have b: "\<not> is_full (q (offset + page_size + n * page_size))"
    using Suc.prems(2) unfolding shift .
  have un: "(\<Union>k\<le>Suc n. page_ids (q (offset + k * page_size))) =
            set data \<union> (\<Union>k\<le>n. page_ids (q (offset + page_size + k * page_size)))"
  proof -
    have "{..Suc n} = insert 0 (Suc ` {..n})"
      by (rule atMost_Suc_eq_insert_0)
    then show ?thesis
      unfolding shift by (simp add: data page_ids_def)
  qed
  show ?case
    unfolding step Suc.IH [OF a b] shift un
    by (simp add: Un_assoc split: sum.splits)
qed

lemma pages_from_step:
  assumes "q offset = Inr data" and "page_size \<le> length data"
    and "pages_from q (offset + page_size) (acc \<union> set data) ids"
  shows "pages_from q offset acc ids"
proof -
  from assms(3) obtain n where
    n: "\<forall>k<n. is_full (q (offset + page_size + k * page_size))"
       "\<not> is_full (q (offset + page_size + n * page_size))"
       "ids = (case q (offset + page_size + n * page_size) of
                  Inl e \<Rightarrow> {}
                | Inr d \<Rightarrow> acc \<union> set data \<union>
                    (\<Union>k\<le>n. page_ids (q (offset + page_size + k * page_size))))"
    unfolding pages_from_def by (elim exE conjE)
  have shift: "\<And>k. offset + page_size + k * page_size = offset + Suc k * page_size"
    by simp
  have full0: "is_full (q offset)"
    using assms(1,2) by (simp add: is_full_def)
  have a: "\<forall>k<Suc n. is_full (q (offset + k * page_size))"
  proof (intro allI impI)
    fix k assume "k < Suc n"
    then show "is_full (q (offset + k * page_size))"
      using n(1) full0 unfolding shift by (cases k) auto
  qed
  have "{..Suc n} = insert 0 (Suc ` {..n})"
    by (rule atMost_Suc_eq_insert_0)
  then have un: "(\<Union>k\<le>Suc n. page_ids (q (offset + k * page_size))) =
        set data \<union> (\<Union>k\<le>n. page_ids (q (offset + page_size + k * page_size)))"
    unfolding shift by (simp add: assms(1) page_ids_def)
  have b: "\<not> is_full (q (offset + Suc n * page_size))"
    using n(2) unfolding shift .
  have c: "ids = (case q (offset + Suc n * page_size) of
                  Inl e \<Rightarrow> {}
                | Inr d \<Rightarrow> acc \<union> (\<Union>k\<le>Suc n. page_ids (q (offset + k * page_size))))"
    using n(3) unfolding shift un by (simp add: Un_assoc split: sum.splits)
  from a b c show ?thesis
    unfolding pages_from_def by blast
qed

lemma fetch_pages_Some:
  assumes "fetch_pages q offset acc = Some ids"
  shows "pages_from q offset acc ids"
proof (rule fetch_pages.raw_induct [where P = pages_from, OF _ assms])
  fix f q offset acc ids
  assume IH: "\<And>q offset acc ids. f q offset acc = Some ids \<Longrightarrow> pages_from q offset acc ids"
    and body: "(case q offset of
        Inl e \<Rightarrow> Some {}
      | Inr data \<Rightarrow>
          if data = [] then Some acc
          else if length data < page_size then Some (acc \<union> set data)
          else f q (offset + page_size) (acc \<union> set data)) = Some ids"
  show "pages_from q offset acc ids"
  proof (cases "q offset")
    case (Inl e)
    with body have "ids = {}" by simp
    with Inl show ?thesis
      unfolding pages_from_def by (intro exI [of _ 0]) (simp add: is_full_def)
  next
    case (Inr data)
    show ?thesis
    proof (cases "length data < page_size")
      case True
      with body Inr have "ids = acc \<union> set data" by (auto split: if_splits)
      with Inr True show ?thesis
        unfolding pages_from_def by (intro exI [of _ 0]) (simp add: is_full_def page_ids_def)
    next
      case False
      then have ne: "data \<noteq> []" by (auto simp: page_size_def)
      with body Inr False have "f q (offset + page_size) (acc \<union> set data) = Some ids"
        by simp
      from IH [OF this] Inr False show ?thesis
        by (intro pages_from_step [of q offset data]) simp_all
    qed
  qed
qed

lemma pages_read_alt:
  "pages_read q n = (case q (0 + n * page_size) of Inl e \<Rightarrow> {}
      | Inr data \<Rightarrow> {} \<union> (\<Union>k\<le>n. page_ids (q (0 + k * page_size))))"
  unfolding pages_read_def set_map set_upt atLeast0LessThan lessThan_Suc_atMost
  by (simp split: sum.splits)

lemma stops_at_alt:
  "stops_at q n = ((\<forall>k<n. is_full (q (0 + k * page_size))) \<and> \<not> is_full (q (0 + n * page_size)))"
  by (auto simp: stops_at_def list_all_iff)

text \<open>
  Claim C7. \<^verbatim>\<open>get_existing_food_ids\<close> returns exactly when, after some number of full
  pages of 1000 rows, a page is short or its query raises; it then returns the ids of all
  pages read, or the empty set when that last query raised.
\<close>

theorem existing_ids_pages:
  "(get_existing_food_ids q = Some ids) = (\<exists>n. stops_at q n \<and> ids = pages_read q n)"
proof
  assume "get_existing_food_ids q = Some ids"
  then have "fetch_pages q 0 {} = Some ids" by (simp add: get_existing_food_ids_def)
  from fetch_pages_Some [OF this] show "\<exists>n. stops_at q n \<and> ids = pages_read q n"
    unfolding pages_from_def pages_read_alt stops_at_alt by blast
next
  assume "\<exists>n. stops_at q n \<and> ids = pages_read q n"
  then obtain n where n: "stops_at q n" "ids = pages_read q n" by blast
  from n(1) have "\<forall>k<n. is_full (q (0 + k * page_size))" "\<not> is_full (q (0 + n * page_size))"
    unfolding stops_at_alt by blast+
  from fetch_pages_stops [OF this, of "{}"] n(2) show "get_existing_food_ids q = Some ids"
    unfolding pages_read_alt get_existing_food_ids_def by simp
qed

lemma page_size_pos: "0 < page_size"
  by (simp add: page_size_def)

text \<open>Witness for claim C7: a full page followed by a page of one row.\<close>

theorem existing_ids_pages_witness:
  "stops_at two_pages 1 \<and> get_existing_food_ids two_pages = Some {''a'', ''b''}"
proof -
  have p0: "two_pages 0 = Inr (replicate page_size ''a'')"
    by (simp add: two_pages_def)
  have p1: "two_pages page_size = Inr [''b'']"
    using page_size_pos by (simp add: two_pages_def)
  have "1 < page_size"
    by (simp add: page_size_def)
  then have s: "stops_at two_pages 1"
    unfolding stops_at_def by (simp add: p0 p1 is_full_def)
  have r: "pages_read two_pages 1 = {''a'', ''b''}"
    unfolding pages_read_def using page_size_pos
    by (auto simp: p0 p1 page_ids_def)
  from existing_ids_pages [of two_pages "{''a'', ''b''}"] s r show ?thesis
    by auto
qed

subsection \<open>The batch loop\<close>

lemma upload_batches_done:
  "total_batches \<le> i \<Longrightarrow>
   upload_batches sv foods batch_size total_batches i progress uploaded_count w =
     (Completed, uploaded_count, w)"
  by (subst upload_batches.simps) simp

lemma upload_batches_embed_fail:
  assumes "i < total_batches"
    and "generate_embeddings sv (map embedding_text (batch_of foods batch_size i)) w = (Inl e, w1)"
  shows "upload_batches sv foods batch_size total_batches i progress uploaded_count w =
     (Halted i, uploaded_count, w1\<lparr> events := events w1 @ [Failed i] \<rparr>)"
  using assms by (subst upload_batches.simps) (simp add: Let_def)

lemma upload_batches_mismatch:
  assumes "i < total_batches"
    and "generate_embeddings sv (map embedding_text (batch_of foods batch_size i)) w = (Inr es, w1)"
    and "length es \<noteq> length (batch_of foods batch_size i)"
  shows "upload_batches sv foods batch_size total_batches i progress uploaded_count w =
     upload_batches sv foods batch_size total_batches (i + 1) progress uploaded_count
       (w1\<lparr> events := events w1 @ [Mismatch i] \<rparr>)"
  using assms by (subst upload_batches.simps) (simp add: Let_def)

lemma upload_batches_upsert_fail:
  assumes "i < total_batches"
    and "generate_embeddings sv (map embedding_text (batch_of foods batch_size i)) w = (Inr es, w1)"
    and "length es = length (batch_of foods batch_size i)"
    and "upsert_fails sv (length (upsert_requests w1))"
  shows "upload_batches sv foods batch_size total_batches i progress uploaded_count w =
     (Halted i, uploaded_count,
      w1\<lparr> upsert_requests := upsert_requests w1 @ [map2 upload_row_of (batch_of foods batch_size i) es],
          events := events w1 @ [Failed i] \<rparr>)"
  using assms by (subst upload_batches.simps) (simp add: Let_def)

lemma save_progress_fields [simp]:
  "events (save_progress sv p w) = events w"
  "foods_table (save_progress sv p w) = foods_table w"
  "embedding_requests (save_progress sv p w) = embedding_requests w"
  "upsert_requests (save_progress sv p w) = upsert_requests w"
  "progress_writes (save_progress sv p w) = progress_writes w @ [p]"
  by (simp_all add: save_progress_def Let_def split: write_outcome.splits)

lemma save_progress_written:
  "write_result sv (length (progress_writes w)) = Written \<Longrightarrow>
   save_progress sv p w = w\<lparr> progress_writes := progress_writes w @ [p], progress_file := Some p \<rparr>"
  by (simp add: save_progress_def Let_def)

lemma save_progress_refused:
  "write_result sv (length (progress_writes w)) = Refused \<Longrightarrow>
   save_progress sv p w = w\<lparr> progress_writes := progress_writes w @ [p] \<rparr>"
  by (simp add: save_progress_def Let_def)

lemma upload_batches_commit:
  assumes "i < total_batches"
    and "generate_embeddings sv (map embedding_text (batch_of foods batch_size i)) w = (Inr es, w1)"
    and "length es = length (batch_of foods batch_size i)"
    and "\<not> upsert_fails sv (length (upsert_requests w1))"
  shows "upload_batches sv foods batch_size total_batches i progress uploaded_count w =
     upload_batches sv foods batch_size total_batches (i + 1)
       (progress\<lparr> uploaded_ids := uploaded_ids progress @ map external_id (batch_of foods batch_size i),
                  last_batch := i + 1,
                  total_uploaded := uploaded_count + length (batch_of foods batch_size i) \<rparr>)
       (uploaded_count + length (batch_of foods batch_size i))
       ((save_progress sv
           (progress\<lparr> uploaded_ids := uploaded_ids progress @ map external_id (batch_of foods batch_size i),
                  last_batch := i + 1,
                  total_uploaded := uploaded_count + length (batch_of foods batch_size i) \<rparr>)
           (w1\<lparr> upsert_requests := upsert_requests w1 @ [map2 upload_row_of (batch_of foods batch_size i) es],
               foods_table := upsert (map2 upload_row_of (batch_of foods batch_size i) es) (foods_table w1) \<rparr>))
        \<lparr> events := events w1 @ [Committed i] \<rparr>)"
  using assms by (subst upload_batches.simps) (simp add: Let_def)

lemma generate_embeddings_from_world:
  "generate_embeddings_from sv texts attempt w = (res, w') \<Longrightarrow>
   progress_file w' = progress_file w \<and> foods_table w' = foods_table w \<and>
   upsert_requests w' = upsert_requests w \<and> events w' = events w \<and>
   progress_writes w' = progress_writes w"
proof (induction sv texts attempt w rule: generate_embeddings_from.induct)
  case (1 sv texts attempt w)
  show ?case
  proof (cases "embeddings_create sv (length (embedding_requests w)) texts")
    case (Inr es)
    with "1.prems" show ?thesis
      by (subst (asm) generate_embeddings_from.simps) (auto simp: Let_def)
  next
    case (Inl e)
    show ?thesis
    proof (cases "attempt < max_retries - 1")
      case True
      with "1.prems" Inl have
        "generate_embeddings_from sv texts (attempt + 1)
           (w\<lparr> embedding_requests := embedding_requests w @ [texts] \<rparr>) = (res, w')"
        by (subst (asm) generate_embeddings_from.simps) (simp add: Let_def)
      from "1.IH" [OF refl Inl True this] show ?thesis by simp
    next
      case False
      with "1.prems" Inl show ?thesis
        by (subst (asm) generate_embeddings_from.simps) (auto simp: Let_def)
    qed
  qed
qed

lemma generate_embeddings_world:
  "generate_embeddings sv texts w = (res, w') \<Longrightarrow>
   progress_file w' = progress_file w \<and> foods_table w' = foods_table w \<and>
   upsert_requests w' = upsert_requests w \<and> events w' = events w \<and>
   progress_writes w' = progress_writes w"
  unfolding generate_embeddings_def by (rule generate_embeddings_from_world)

lemma generate_embeddings_from_last:
  "generate_embeddings_from sv texts attempt w = (res, w') \<Longrightarrow>
   embedding_requests w' \<noteq> [] \<and> last (embedding_requests w') = texts"
proof (induction sv texts attempt w rule: generate_embeddings_from.induct)
  case (1 sv texts attempt w)
  show ?case
  proof (cases "embeddings_create sv (length (embedding_requests w)) texts")
    case (Inr es)
    with "1.prems" show ?thesis
      by (subst (asm) generate_embeddings_from.simps) (auto simp: Let_def)
  next
    case (Inl e)
    show ?thesis
    proof (cases "attempt < max_retries - 1")
      case True
      with "1.prems" Inl have
        "generate_embeddings_from sv texts (attempt + 1)
           (w\<lparr> embedding_requests := embedding_requests w @ [texts] \<rparr>) = (res, w')"
        by (subst (asm) generate_embeddings_from.simps) (simp add: Let_def)
      from "1.IH" [OF refl Inl True this] show ?thesis by simp
    next
      case False
      with "1.prems" Inl show ?thesis
        by (subst (asm) generate_embeddings_from.simps) (auto simp: Let_def)
    qed
  qed
qed

lemma generate_embeddings_request:
  "generate_embeddings sv texts w = (res, w') \<Longrightarrow>
   embedding_requests w' \<noteq> [] \<and> last (embedding_requests w') = texts"
  unfolding generate_embeddings_def by (rule generate_embeddings_from_last)

text \<open>The three attempts of \<^verbatim>\<open>generate_embeddings\<close>, one equation for each.\<close>

lemma generate_embeddings_third:
  "generate_embeddings_from sv texts (Suc (Suc 0)) w =
     (case embeddings_create sv (length (embedding_requests w)) texts of
        Inr es \<Rightarrow> (Inr es, w\<lparr> embedding_requests := embedding_requests w @ [texts] \<rparr>)
      | Inl e \<Rightarrow> (Inl e, w\<lparr> embedding_requests := embedding_requests w @ [texts] \<rparr>))"
  by (subst generate_embeddings_from.simps) (simp add: Let_def max_retries_def split: sum.splits)

lemma generate_embeddings_second_attempt:
  "generate_embeddings_from sv texts (Suc 0) w =
     (case embeddings_create sv (length (embedding_requests w)) texts of
        Inr es \<Rightarrow> (Inr es, w\<lparr> embedding_requests := embedding_requests w @ [texts] \<rparr>)
      | Inl e \<Rightarrow> generate_embeddings_from sv texts (Suc (Suc 0))
                   (w\<lparr> embedding_requests := embedding_requests w @ [texts] \<rparr>))"
  by (subst generate_embeddings_from.simps) (simp add: Let_def max_retries_def split: sum.splits)

lemma generate_embeddings_first_attempt:
  "generate_embeddings sv texts w =
     (case embeddings_create sv (length (embedding_requests w)) texts of
        Inr es \<Rightarrow> (Inr es, w\<lparr> embedding_requests := embedding_requests w @ [texts] \<rparr>)
      | Inl e \<Rightarrow> generate_embeddings_from sv texts (Suc 0)
                   (w\<lparr> embedding_requests := embedding_requests w @ [texts] \<rparr>))"
  unfolding generate_embeddings_def
  by (subst generate_embeddings_from.simps) (simp add: Let_def max_retries_def split: sum.splits)

lemma generate_embeddings_raises_iff:
  "(generate_embeddings sv texts w0 = (Inl e, w1)) =
     (\<exists>e0 e1.
        embeddings_create sv (length (embedding_requests w0)) texts = Inl e0 \<and>
        embeddings_create sv (Suc (length (embedding_requests w0))) texts = Inl e1 \<and>
        embeddings_create sv (Suc (Suc (length (embedding_requests w0)))) texts = Inl e \<and>
        w1 = w0\<lparr> embedding_requests := embedding_requests w0 @ [texts, texts, texts] \<rparr>)"
  unfolding generate_embeddings_first_attempt generate_embeddings_second_attempt
    generate_embeddings_third
  by (auto split: sum.splits)

lemma load_progress_events [simp]: "load_progress (w\<lparr> events := evs \<rparr>) = load_progress w"
  by (simp add: load_progress_def)

lemma writes_ok_iff:
  "writes_ok sv w w' =
     (\<forall>j. length (progress_writes w) \<le> j \<and> j < length (progress_writes w') \<longrightarrow>
          write_result sv j = Written)"
  by (auto simp: writes_ok_def list_all_iff)

lemma upload_batches_halted:
  assumes "upload_batches sv foods bs tb i p c w = (Halted k, n, w')"
  shows "\<exists>evs. events w' = events w @ evs @ [Failed k] \<and> list_all (before_batch k) evs \<and>
           list_all (from_batch i) evs \<and> i \<le> k \<and> k < tb \<and>
           n = c + sum_list (map (\<lambda>j. length (batch_of foods bs j)) (committed evs)) \<and>
           last (embedding_requests w') = map embedding_text (batch_of foods bs k) \<and>
           length (progress_writes w) \<le> length (progress_writes w') \<and>
           (writes_ok sv w w' \<and> load_progress w = p \<and> c = total_uploaded p \<longrightarrow>
              load_progress w' = replay foods bs p evs \<and>
              (committed evs = [] \<longrightarrow> progress_file w' = progress_file w))"
  using assms
proof (induction "tb - i" arbitrary: i p c w)
  case 0
  then have "tb \<le> i" by simp
  with "0.prems"(1) show ?case
    by (simp add: upload_batches_done)
next
  case (Suc m)
  then have lt: "i < tb" by simp
  let ?batch = "batch_of foods bs i"
  obtain res w1 where gen: "generate_embeddings sv (map embedding_text ?batch) w = (res, w1)"
    by (cases "generate_embeddings sv (map embedding_text ?batch) w")
  from generate_embeddings_world [OF gen] have
    same: "progress_file w1 = progress_file w" "events w1 = events w"
      "progress_writes w1 = progress_writes w"
    by simp_all
  then have lp: "load_progress w1 = load_progress w"
    by (simp add: load_progress_def)
  from generate_embeddings_request [OF gen] have
    req: "last (embedding_requests w1) = map embedding_text ?batch"
    by simp
  have m: "m = tb - (i + 1)"
    using Suc.hyps(2) by simp
  show ?case
  proof (cases res)
    case (Inl e)
    have "upload_batches sv foods bs tb i p c w =
            (Halted i, c, w1\<lparr> events := events w1 @ [Failed i] \<rparr>)"
      by (rule upload_batches_embed_fail [OF lt gen [unfolded Inl]])
    with Suc.prems(1)
    have r: "k = i" "n = c" "w' = w1\<lparr> events := events w1 @ [Failed i] \<rparr>"
      by auto
    show ?thesis
      using r same lp lt req by (intro exI [of _ "[]"]) simp
  next
    case (Inr es)
    note gen' = gen [unfolded Inr]
    show ?thesis
    proof (cases "length es = length ?batch")
      case False
      let ?w2 = "w1\<lparr> events := events w1 @ [Mismatch i] \<rparr>"
      have "upload_batches sv foods bs tb i p c w = upload_batches sv foods bs tb (i + 1) p c ?w2"
        by (rule upload_batches_mismatch [OF lt gen' False])
      with Suc.prems(1)
      have run: "upload_batches sv foods bs tb (i + 1) p c ?w2 = (Halted k, n, w')"
        by simp
      from Suc.hyps(1) [OF m run] obtain evs where
        evs: "events w' = events ?w2 @ evs @ [Failed k]" "list_all (before_batch k) evs"
          "list_all (from_batch (i + 1)) evs" "i + 1 \<le> k" "k < tb"
          "n = c + sum_list (map (\<lambda>j. length (batch_of foods bs j)) (committed evs))"
          "last (embedding_requests w') = map embedding_text (batch_of foods bs k)"
          "length (progress_writes ?w2) \<le> length (progress_writes w')"
          "writes_ok sv ?w2 w' \<and> load_progress ?w2 = p \<and> c = total_uploaded p \<longrightarrow>
              load_progress w' = replay foods bs p evs \<and>
              (committed evs = [] \<longrightarrow> progress_file w' = progress_file ?w2)"
        by blast
      have fb: "list_all (from_batch i) evs"
        using evs(3) by (induction evs) (auto elim: from_batch.elims)
      have wk: "writes_ok sv ?w2 w' = writes_ok sv w w'"
        by (simp add: writes_ok_def same)
      have pf: "writes_ok sv w w' \<and> load_progress w = p \<and> c = total_uploaded p \<longrightarrow>
              load_progress w' = replay foods bs p (Mismatch i # evs) \<and>
              (committed (Mismatch i # evs) = [] \<longrightarrow> progress_file w' = progress_file w)"
        using evs(9) wk lp same by simp
      show ?thesis
        using evs(1-8) fb same pf by (intro exI [of _ "Mismatch i # evs"]) simp
    next
      case True
      show ?thesis
      proof (cases "upsert_fails sv (length (upsert_requests w1))")
        case fails: True
        have "upload_batches sv foods bs tb i p c w =
            (Halted i, c, w1\<lparr> upsert_requests := upsert_requests w1 @ [map2 upload_row_of ?batch es],
                       events := events w1 @ [Failed i] \<rparr>)"
          by (rule upload_batches_upsert_fail [OF lt gen' True fails])
        with Suc.prems(1)
        have r: "k = i" "n = c"
          "w' = w1\<lparr> upsert_requests := upsert_requests w1 @ [map2 upload_row_of ?batch es],
                       events := events w1 @ [Failed i] \<rparr>"
          by auto
        have "load_progress w' = load_progress w" "progress_file w' = progress_file w"
          using same r(3) by (simp_all add: load_progress_def)
        then show ?thesis
          using r same lt req by (intro exI [of _ "[]"]) simp
      next
        case ok: False
        let ?p' = "p\<lparr> uploaded_ids := uploaded_ids p @ map external_id ?batch,
                         last_batch := i + 1,
                         total_uploaded := c + length ?batch \<rparr>"
        let ?w3 = "w1\<lparr> upsert_requests := upsert_requests w1 @ [map2 upload_row_of ?batch es],
                       foods_table := upsert (map2 upload_row_of ?batch es) (foods_table w1) \<rparr>"
        let ?w4 = "(save_progress sv ?p' ?w3)\<lparr> events := events w1 @ [Committed i] \<rparr>"
        have "upload_batches sv foods bs tb i p c w =
                upload_batches sv foods bs tb (i + 1) ?p' (c + length ?batch) ?w4"
          by (rule upload_batches_commit [OF lt gen' True ok])
        with Suc.prems(1)
        have run: "upload_batches sv foods bs tb (i + 1) ?p' (c + length ?batch) ?w4 = (Halted k, n, w')"
          by simp
        have len4: "length (progress_writes ?w4) = Suc (length (progress_writes w))"
          by (simp add: same)
        from Suc.hyps(1) [OF m run] obtain evs where
          evs: "events w' = events ?w4 @ evs @ [Failed k]" "list_all (before_batch k) evs"
            "list_all (from_batch (i + 1)) evs" "i + 1 \<le> k" "k < tb"
            "n = c + length ?batch +
               sum_list (map (\<lambda>j. length (batch_of foods bs j)) (committed evs))"
            "last (embedding_requests w') = map embedding_text (batch_of foods bs k)"
            "length (progress_writes ?w4) \<le> length (progress_writes w')"
            "writes_ok sv ?w4 w' \<and> load_progress ?w4 = ?p' \<and>
               c + length ?batch = total_uploaded ?p' \<longrightarrow>
              load_progress w' = replay foods bs ?p' evs"
          by blast
        have fb: "list_all (from_batch i) evs"
          using evs(3) by (induction evs) (auto elim: from_batch.elims)
        have mono: "length (progress_writes w) \<le> length (progress_writes w')"
          using evs(8) len4 by simp
        have pf: "writes_ok sv w w' \<and> load_progress w = p \<and> c = total_uploaded p \<longrightarrow>
              load_progress w' = replay foods bs p (Committed i # evs) \<and>
              (committed (Committed i # evs) = [] \<longrightarrow> progress_file w' = progress_file w)"
        proof (intro impI)
          assume h: "writes_ok sv w w' \<and> load_progress w = p \<and> c = total_uploaded p"
          from evs(8) len4 have "length (progress_writes w) < length (progress_writes w')"
            by simp
          with h have "write_result sv (length (progress_writes w)) = Written"
            by (simp add: writes_ok_iff)
          then have "write_result sv (length (progress_writes ?w3)) = Written"
            by (simp add: same)
          from save_progress_written [OF this, of ?p'] have lp4: "load_progress ?w4 = ?p'"
            by (simp add: load_progress_def)
          from h have "writes_ok sv ?w4 w'"
            unfolding writes_ok_iff len4 by simp
          with evs(9) lp4 have "load_progress w' = replay foods bs ?p' evs"
            by simp
          moreover have "?p' = commit_ledger foods bs p i"
            using h by (simp add: commit_ledger_def)
          ultimately show "load_progress w' = replay foods bs p (Committed i # evs) \<and>
              (committed (Committed i # evs) = [] \<longrightarrow> progress_file w' = progress_file w)"
            by simp
        qed
        show ?thesis
          using evs(1-7) fb same mono pf by (intro exI [of _ "Committed i # evs"]) simp
      qed
    qed
  qed
qed

text \<open>An upsert request that raises is the last one of the loop, and the loop does not
  run to its end.\<close>

lemma upload_batches_upsert_last:
  assumes "upload_batches sv foods bs tb i p c w = (oc, n, w')"
  shows "length (upsert_requests w) \<le> length (upsert_requests w') \<and>
         (\<forall>j. length (upsert_requests w) \<le> j \<and> j < length (upsert_requests w') \<and>
              upsert_fails sv j \<longrightarrow>
              Suc j = length (upsert_requests w') \<and> (\<exists>k. oc = Halted k))"
  using assms
proof (induction "tb - i" arbitrary: i p c w)
  case 0
  then have "tb \<le> i" by simp
  with "0.prems"(1) show ?case
    by (simp add: upload_batches_done)
next
  case (Suc m)
  then have lt: "i < tb" by simp
  let ?batch = "batch_of foods bs i"
  obtain res w1 where gen: "generate_embeddings sv (map embedding_text ?batch) w = (res, w1)"
    by (cases "generate_embeddings sv (map embedding_text ?batch) w")
  from generate_embeddings_world [OF gen] have
    same: "upsert_requests w1 = upsert_requests w"
    by simp
  have m: "m = tb - (i + 1)"
    using Suc.hyps(2) by simp
  show ?case
  proof (cases res)
    case (Inl e)
    have "upload_batches sv foods bs tb i p c w =
            (Halted i, c, w1\<lparr> events := events w1 @ [Failed i] \<rparr>)"
      by (rule upload_batches_embed_fail [OF lt gen [unfolded Inl]])
    with Suc.prems(1) have "oc = Halted i" "w' = w1\<lparr> events := events w1 @ [Failed i] \<rparr>"
      by auto
    then show ?thesis
      using same by simp
  next
    case (Inr es)
    note gen' = gen [unfolded Inr]
    show ?thesis
    proof (cases "length es = length ?batch")
      case False
      let ?w2 = "w1\<lparr> events := events w1 @ [Mismatch i] \<rparr>"
      have "upload_batches sv foods bs tb i p c w = upload_batches sv foods bs tb (i + 1) p c ?w2"
        by (rule upload_batches_mismatch [OF lt gen' False])
      with Suc.prems(1)
      have run: "upload_batches sv foods bs tb (i + 1) p c ?w2 = (oc, n, w')"
        by simp
      from Suc.hyps(1) [OF m run] show ?thesis
        using same by simp
    next
      case True
      show ?thesis
      proof (cases "upsert_fails sv (length (upsert_requests w1))")
        case fails: True
        have "upload_batches sv foods bs tb i p c w =
            (Halted i, c, w1\<lparr> upsert_requests := upsert_requests w1 @ [map2 upload_row_of ?batch es],
                       events := events w1 @ [Failed i] \<rparr>)"
          by (rule upload_batches_upsert_fail [OF lt gen' True fails])
        with Suc.prems(1)
        have "oc = Halted i"
          "w' = w1\<lparr> upsert_requests := upsert_requests w1 @ [map2 upload_row_of ?batch es],
                       events := events w1 @ [Failed i] \<rparr>"
          by auto
        then show ?thesis
          using same by auto
      next
        case ok: False
        let ?p' = "p\<lparr> uploaded_ids := uploaded_ids p @ map external_id ?batch,
                         last_batch := i + 1,
                         total_uploaded := c + length ?batch \<rparr>"
        let ?w3 = "w1\<lparr> upsert_requests := upsert_requests w1 @ [map2 upload_row_of ?batch es],
                       foods_table := upsert (map2 upload_row_of ?batch es) (foods_table w1) \<rparr>"
        let ?w4 = "(save_progress sv ?p' ?w3)\<lparr> events := events w1 @ [Committed i] \<rparr>"
        have "upload_batches sv foods bs tb i p c w =
                upload_batches sv foods bs tb (i + 1) ?p' (c + length ?batch) ?w4"
          by (rule upload_batches_commit [OF lt gen' True ok])
        with Suc.prems(1)
        have run: "upload_batches sv foods bs tb (i + 1) ?p' (c + length ?batch) ?w4 = (oc, n, w')"
          by simp
        have len4: "length (upsert_requests ?w4) = Suc (length (upsert_requests w))"
          by (simp add: same)
        from Suc.hyps(1) [OF m run] have
          ih: "length (upsert_requests ?w4) \<le> length (upsert_requests w')"
            "\<forall>j. length (upsert_requests ?w4) \<le> j \<and> j < length (upsert_requests w') \<and>
              upsert_fails sv j \<longrightarrow>
              Suc j = length (upsert_requests w') \<and> (\<exists>k. oc = Halted k)"
          by simp_all
        have "Suc j = length (upsert_requests w') \<and> (\<exists>k. oc = Halted k)"
          if j: "length (upsert_requests w) \<le> j" "j < length (upsert_requests w')"
            "upsert_fails sv j" for j
        proof (cases "j = length (upsert_requests w)")
          case True
          with ok same j(3) show ?thesis by simp
        next
          case False
          with j(1) len4 have "length (upsert_requests ?w4) \<le> j" by simp
          with ih(2) j(2,3) show ?thesis by blast
        qed
        moreover from ih(1) len4 have "length (upsert_requests w) \<le> length (upsert_requests w')"
          by simp
        ultimately show ?thesis
          by blast
      qed
    qed
  qed
qed

text \<open>A call of \<^verbatim>\<open>generate_embeddings\<close> sends one to three requests; when it returns, the
  last one was answered.\<close>

lemma generate_embeddings_cases:
  assumes "generate_embeddings sv texts w0 = (res, w1)"
  shows "\<exists>m. 0 < m \<and> m \<le> 3 \<and>
           embedding_requests w1 = embedding_requests w0 @ replicate m texts \<and>
           (case res of
              Inr es \<Rightarrow> embeddings_create sv (length (embedding_requests w0) + m - 1) texts = Inr es
            | Inl e \<Rightarrow> m = 3)"
proof (cases "embeddings_create sv (length (embedding_requests w0)) texts")
  case (Inr es)
  with assms have "res = Inr es" "w1 = w0\<lparr> embedding_requests := embedding_requests w0 @ [texts] \<rparr>"
    by (simp_all add: generate_embeddings_first_attempt)
  then show ?thesis
    using Inr by (intro exI [of _ 1]) simp
next
  case a: (Inl e0)
  show ?thesis
  proof (cases "embeddings_create sv (Suc (length (embedding_requests w0))) texts")
    case (Inr es)
    with assms a have "res = Inr es"
      "w1 = w0\<lparr> embedding_requests := embedding_requests w0 @ [texts, texts] \<rparr>"
      by (simp_all add: generate_embeddings_first_attempt generate_embeddings_second_attempt)
    then show ?thesis
      using Inr by (intro exI [of _ 2]) (simp add: numeral_2_eq_2)
  next
    case b: (Inl e1)
    show ?thesis
    proof (cases "embeddings_create sv (Suc (Suc (length (embedding_requests w0)))) texts")
      case (Inr es)
      with assms a b have "res = Inr es"
        "w1 = w0\<lparr> embedding_requests := embedding_requests w0 @ [texts, texts, texts] \<rparr>"
        by (simp_all add: generate_embeddings_first_attempt generate_embeddings_second_attempt
            generate_embeddings_third)
      then show ?thesis
        using Inr by (intro exI [of _ 3]) (simp add: numeral_3_eq_3)
    next
      case (Inl e)
      with assms a b have "res = Inl e"
        "w1 = w0\<lparr> embedding_requests := embedding_requests w0 @ [texts, texts, texts] \<rparr>"
        by (simp_all add: generate_embeddings_first_attempt generate_embeddings_second_attempt
            generate_embeddings_third)
      then show ?thesis
        by (intro exI [of _ 3]) (simp add: numeral_3_eq_3)
    qed
  qed
qed

lemma nth_replicate_mid: "(xs @ replicate (Suc q) t @ rest) ! (length xs + q) = t"
proof -
  have "q < length (replicate (Suc q) t)"
    by simp
  then have "(replicate (Suc q) t @ rest) ! q = replicate (Suc q) t ! q"
    by (rule nth_append_left)
  also have "\<dots> = t"
    by (rule nth_replicate) simp
  finally show ?thesis
    by (simp only: nth_append_length_plus)
qed


text \<open>Three failed requests in a row are the last three of the loop, and the loop does
  not run to its end.\<close>

lemma upload_batches_exhausted_last:
  assumes "upload_batches sv foods bs tb i p c w = (oc, n, w')"
  shows "(\<exists>rest. embedding_requests w' = embedding_requests w @ rest) \<and>
         (\<forall>j. length (embedding_requests w) \<le> j \<and> j + 2 < length (embedding_requests w') \<and>
              request_fails sv w' j \<and> request_fails sv w' (j + 1) \<and> request_fails sv w' (j + 2) \<longrightarrow>
              j + 3 = length (embedding_requests w') \<and> (\<exists>k. oc = Halted k))"
  using assms
proof (induction "tb - i" arbitrary: i p c w)
  case 0
  then have "tb \<le> i" by simp
  with "0.prems"(1) show ?case
    by (simp add: upload_batches_done)
next
  case (Suc m)
  then have lt: "i < tb" by simp
  let ?batch = "batch_of foods bs i"
  let ?texts = "map embedding_text ?batch"
  let ?L = "length (embedding_requests w)"
  obtain res w1 where gen: "generate_embeddings sv ?texts w = (res, w1)"
    by (cases "generate_embeddings sv ?texts w")
  from generate_embeddings_cases [OF gen] obtain r where
    r: "0 < r" "r \<le> 3" "embedding_requests w1 = embedding_requests w @ replicate r ?texts"
      "case res of
              Inr es \<Rightarrow> embeddings_create sv (?L + r - 1) ?texts = Inr es
            | Inl e \<Rightarrow> r = 3"
    by blast
  have len1: "length (embedding_requests w1) = ?L + r"
    using r(3) by simp
  have m: "m = tb - (i + 1)"
    using Suc.hyps(2) by simp
  show ?case
  proof (cases res)
    case (Inl e)
    have "upload_batches sv foods bs tb i p c w =
            (Halted i, c, w1\<lparr> events := events w1 @ [Failed i] \<rparr>)"
      by (rule upload_batches_embed_fail [OF lt gen [unfolded Inl]])
    with Suc.prems(1) have w': "oc = Halted i" "w' = w1\<lparr> events := events w1 @ [Failed i] \<rparr>"
      by auto
    from r(4) Inl have "r = 3" by simp
    with len1 w' have "length (embedding_requests w') = ?L + 3" by simp
    moreover have "\<exists>rest. embedding_requests w' = embedding_requests w @ rest"
      using w' r(3) by simp
    ultimately show ?thesis
      using w'(1) by auto
  next
    case (Inr es)
    note gen' = gen [unfolded Inr]
    from r(4) Inr have ok_at: "embeddings_create sv (?L + r - 1) ?texts = Inr es"
      by simp
    have early: False
      if pre: "\<exists>rest. embedding_requests w' = embedding_requests w1 @ rest"
        and j: "?L \<le> j" "j < ?L + r"
          "request_fails sv w' j" "request_fails sv w' (j + 1)" "request_fails sv w' (j + 2)"
      for j
    proof -
      from pre obtain rest where rest: "embedding_requests w' = embedding_requests w1 @ rest"
        by blast
      from r(1) obtain q where q: "r = Suc q"
        by (cases r) simp_all
      have at: "embedding_requests w' ! (?L + r - 1) = ?texts"
        unfolding rest r(3) q using nth_replicate_mid [of "embedding_requests w" q ?texts rest]
        by simp
      have "\<not> request_fails sv w' (?L + r - 1)"
        unfolding request_fails_def at ok_at by simp
      moreover from j(1,2) r(2) have "?L + r - 1 = j \<or> ?L + r - 1 = j + 1 \<or> ?L + r - 1 = j + 2"
        by arith
      ultimately show False
        using j(3,4,5) by auto
    qed
    show ?thesis
    proof (cases "length es = length ?batch")
      case False
      let ?w2 = "w1\<lparr> events := events w1 @ [Mismatch i] \<rparr>"
      have "upload_batches sv foods bs tb i p c w = upload_batches sv foods bs tb (i + 1) p c ?w2"
        by (rule upload_batches_mismatch [OF lt gen' False])
      with Suc.prems(1)
      have run: "upload_batches sv foods bs tb (i + 1) p c ?w2 = (oc, n, w')"
        by simp
      from Suc.hyps(1) [OF m run] have
        ih: "\<exists>rest. embedding_requests w' = embedding_requests w1 @ rest"
          "\<forall>j. length (embedding_requests w1) \<le> j \<and> j + 2 < length (embedding_requests w') \<and>
              request_fails sv w' j \<and> request_fails sv w' (j + 1) \<and> request_fails sv w' (j + 2) \<longrightarrow>
              j + 3 = length (embedding_requests w') \<and> (\<exists>k. oc = Halted k)"
        by simp_all
      have pre: "\<exists>rest. embedding_requests w' = embedding_requests w @ rest"
        using ih(1) r(3) by auto
      have "j + 3 = length (embedding_requests w') \<and> (\<exists>k. oc = Halted k)"
        if j: "?L \<le> j" "j + 2 < length (embedding_requests w')"
          "request_fails sv w' j" "request_fails sv w' (j + 1)" "request_fails sv w' (j + 2)" for j
      proof (cases "j < ?L + r")
        case True
        from early [OF ih(1) j(1) True j(3,4,5)] show ?thesis ..
      next
        case False
        with len1 have "length (embedding_requests w1) \<le> j" by simp
        with ih(2) j(2,3,4,5) show ?thesis by blast
      qed
      with pre show ?thesis by blast
    next
      case True
      show ?thesis
      proof (cases "upsert_fails sv (length (upsert_requests w1))")
        case fails: True
        have "upload_batches sv foods bs tb i p c w =
            (Halted i, c, w1\<lparr> upsert_requests := upsert_requests w1 @ [map2 upload_row_of ?batch es],
                       events := events w1 @ [Failed i] \<rparr>)"
          by (rule upload_batches_upsert_fail [OF lt gen' True fails])
        with Suc.prems(1)
        have w': "oc = Halted i"
          "w' = w1\<lparr> upsert_requests := upsert_requests w1 @ [map2 upload_row_of ?batch es],
                       events := events w1 @ [Failed i] \<rparr>"
          by auto
        have same1: "embedding_requests w' = embedding_requests w1"
          using w'(2) by simp
        have pre1: "\<exists>rest. embedding_requests w' = embedding_requests w1 @ rest"
          using same1 by simp
        have pre: "\<exists>rest. embedding_requests w' = embedding_requests w @ rest"
          using same1 r(3) by simp
        have "j + 3 = length (embedding_requests w') \<and> (\<exists>k. oc = Halted k)"
          if j: "?L \<le> j" "j + 2 < length (embedding_requests w')"
            "request_fails sv w' j" "request_fails sv w' (j + 1)" "request_fails sv w' (j + 2)" for j
        proof -
          from j(2) same1 len1 have "j < ?L + r" by simp
          from early [OF pre1 j(1) this j(3,4,5)] show ?thesis ..
        qed
        with pre show ?thesis by blast
      next
        case ok: False
        let ?p' = "p\<lparr> uploaded_ids := uploaded_ids p @ map external_id ?batch,
                         last_batch := i + 1,
                         total_uploaded := c + length ?batch \<rparr>"
        let ?w3 = "w1\<lparr> upsert_requests := upsert_requests w1 @ [map2 upload_row_of ?batch es],
                       foods_table := upsert (map2 upload_row_of ?batch es) (foods_table w1) \<rparr>"
        let ?w4 = "(save_progress sv ?p' ?w3)\<lparr> events := events w1 @ [Committed i] \<rparr>"
        have "upload_batches sv foods bs tb i p c w =
                upload_batches sv foods bs tb (i + 1) ?p' (c + length ?batch) ?w4"
          by (rule upload_batches_commit [OF lt gen' True ok])
        with Suc.prems(1)
        have run: "upload_batches sv foods bs tb (i + 1) ?p' (c + length ?batch) ?w4 = (oc, n, w')"
          by simp
        have req4: "embedding_requests ?w4 = embedding_requests w1"
          by simp
        from Suc.hyps(1) [OF m run] have
          ih: "\<exists>rest. embedding_requests w' = embedding_requests w1 @ rest"
            "\<forall>j. length (embedding_requests w1) \<le> j \<and> j + 2 < length (embedding_requests w') \<and>
              request_fails sv w' j \<and> request_fails sv w' (j + 1) \<and> request_fails sv w' (j + 2) \<longrightarrow>
              j + 3 = length (embedding_requests w') \<and> (\<exists>k. oc = Halted k)"
          unfolding req4 by simp_all
        have pre: "\<exists>rest. embedding_requests w' = embedding_requests w @ rest"
          using ih(1) r(3) by auto
        have "j + 3 = length (embedding_requests w') \<and> (\<exists>k. oc = Halted k)"
          if j: "?L \<le> j" "j + 2 < length (embedding_requests w')"
            "request_fails sv w' j" "request_fails sv w' (j + 1)" "request_fails sv w' (j + 2)" for j
        proof (cases "j < ?L + r")
          case True
          from early [OF ih(1) j(1) True j(3,4,5)] show ?thesis ..
        next
          case False
          with len1 have "length (embedding_requests w1) \<le> j" by simp
          with ih(2) j(2,3,4,5) show ?thesis by blast
        qed
        with pre show ?thesis by blast
      qed
    qed
  qed
qed

lemma replay_last_batch:
  "list_all (before_batch k) evs \<Longrightarrow> last_batch p \<le> k \<Longrightarrow>
   last_batch (replay foods bs p evs) \<le> k"
proof (induction evs arbitrary: p)
  case Nil
  then show ?case by simp
next
  case (Cons e evs)
  then show ?case
    by (cases e) (simp_all add: commit_ledger_def)
qed

lemma replay_ids:
  "uploaded_ids (replay foods bs p evs) =
     uploaded_ids p @ concat (map (\<lambda>j. map external_id (batch_of foods bs j)) (committed evs))"
proof (induction evs arbitrary: p)
  case Nil
  then show ?case by simp
next
  case (Cons e evs)
  then show ?case
    by (cases e) (simp_all add: commit_ledger_def)
qed

lemma replay_total:
  "total_uploaded (replay foods bs p evs) =
     total_uploaded p + sum_list (map (\<lambda>j. length (batch_of foods bs j)) (committed evs))"
proof (induction evs arbitrary: p)
  case Nil
  then show ?case by simp
next
  case (Cons e evs)
  then show ?case
    by (cases e) (simp_all add: commit_ledger_def)
qed

lemma committed_before:
  "list_all (before_batch k) evs \<Longrightarrow> j \<in> set (committed evs) \<Longrightarrow> j < k"
proof (induction evs)
  case Nil
  then show ?case by simp
next
  case (Cons e evs)
  then show ?case
    by (cases e) auto
qed

lemma batch_of_take_drop:
  "batch_of foods bs i = take bs (drop (i * bs) foods)"
  by (simp add: batch_of_def Let_def min_def)

lemma batch_of_subset: "set (batch_of foods bs i) \<subseteq> set foods"
  unfolding batch_of_take_drop
  by (meson set_drop_subset set_take_subset subset_trans)

lemma batch_of_in_take:
  assumes "j < k"
  shows "set (batch_of foods bs j) \<subseteq> set (take (k * bs) foods)"
proof -
  have "take bs (drop (j * bs) foods) = drop (j * bs) (take (j * bs + bs) foods)"
    by (simp add: drop_take)
  then have "set (batch_of foods bs j) \<subseteq> set (take (Suc j * bs) foods)"
    unfolding batch_of_take_drop by (simp add: set_drop_subset add.commute)
  moreover from assms have "Suc j \<le> k" by simp
  then have "Suc j * bs \<le> k * bs"
    by (rule mult_le_mono1)
  then have "set (take (Suc j * bs) foods) \<subseteq> set (take (k * bs) foods)"
    by (rule set_take_subset_set_take)
  ultimately show ?thesis by blast
qed

lemma batch_of_in_drop: "set (batch_of foods bs k) \<subseteq> set (drop (k * bs) foods)"
  unfolding batch_of_take_drop by (rule set_take_subset)

lemma batch_ids_disjoint:
  assumes "distinct (map external_id foods)" and "j < k"
  shows "external_id ` set (batch_of foods bs j) \<inter> external_id ` set (batch_of foods bs k) = {}"
proof -
  have "distinct (map external_id (take (k * bs) foods) @ map external_id (drop (k * bs) foods))"
    using assms(1) by (simp flip: map_append)
  then have "external_id ` set (take (k * bs) foods) \<inter> external_id ` set (drop (k * bs) foods) = {}"
    by simp
  with batch_of_in_take [OF assms(2), of foods bs] batch_of_in_drop [of foods bs k]
  show ?thesis by blast
qed

lemma generate_embeddings_exhausted:
  assumes "embeddings_create sv (length (embedding_requests w)) texts = Inl e0"
    and "embeddings_create sv (Suc (length (embedding_requests w))) texts = Inl e1"
    and "embeddings_create sv (Suc (Suc (length (embedding_requests w)))) texts = Inl e2"
  shows "generate_embeddings sv texts w =
     (Inl e2, w\<lparr> embedding_requests := embedding_requests w @ [texts, texts, texts] \<rparr>)"
  using assms by (simp add: generate_embeddings_raises_iff)

lemma batch_upload_run:
  assumes "batch_upload_foods sv foods batch_size w = Inr (oc, n, w')"
  shows "(foods = [] \<and> oc = Completed \<and> n = 0 \<and> w' = w) \<or>
         (\<exists>w2. foods \<noteq> [] \<and> batch_size \<noteq> 0 \<and>
            upload_batches sv foods batch_size ((length foods + batch_size - 1) div batch_size)
              (last_batch (load_progress w)) (load_progress w) (total_uploaded (load_progress w)) w =
              (oc, n, w2) \<and>
            (w' = w2 \<or> w' = w2\<lparr> progress_file := None \<rparr>))"
proof (cases "foods = []")
  case True
  with assms show ?thesis
    by (auto simp: batch_upload_foods_def)
next
  case False
  let ?p = "load_progress w"
  let ?tb = "(length foods + batch_size - 1) div batch_size"
  from assms False have bs: "batch_size \<noteq> 0"
    by (auto simp: batch_upload_foods_def Let_def split: if_splits)
  obtain oc2 m w2 where run:
    "upload_batches sv foods batch_size ?tb (last_batch ?p) ?p (total_uploaded ?p) w = (oc2, m, w2)"
    by (cases "upload_batches sv foods batch_size ?tb (last_batch ?p) ?p (total_uploaded ?p) w")
  with assms False bs have "oc2 = oc \<and> m = n \<and> (w' = w2 \<or> w' = w2\<lparr> progress_file := None \<rparr>)"
    by (cases oc2) (auto simp: batch_upload_foods_def Let_def)
  with run False bs show ?thesis
    by auto
qed

lemma batch_upload_upsert_last:
  assumes "batch_upload_foods sv foods batch_size w = Inr (oc, n, w')"
    and "length (upsert_requests w) \<le> j" and "j < length (upsert_requests w')"
    and "upsert_fails sv j"
  shows "Suc j = length (upsert_requests w') \<and> (\<exists>k. oc = Halted k)"
proof -
  from batch_upload_run [OF assms(1)] assms(2,3) obtain w2 where
    run: "upload_batches sv foods batch_size ((length foods + batch_size - 1) div batch_size)
              (last_batch (load_progress w)) (load_progress w) (total_uploaded (load_progress w)) w =
              (oc, n, w2)"
    and w': "w' = w2 \<or> w' = w2\<lparr> progress_file := None \<rparr>"
    by auto
  from w' have "upsert_requests w' = upsert_requests w2"
    by auto
  with upload_batches_upsert_last [OF run] assms(2,3,4) show ?thesis
    by simp
qed

lemma batch_upload_exhausted_last:
  assumes "batch_upload_foods sv foods batch_size w = Inr (oc, n, w')"
    and "length (embedding_requests w) \<le> j" and "j + 2 < length (embedding_requests w')"
    and "request_fails sv w' j" and "request_fails sv w' (j + 1)" and "request_fails sv w' (j + 2)"
  shows "j + 3 = length (embedding_requests w') \<and> (\<exists>k. oc = Halted k)"
proof -
  from batch_upload_run [OF assms(1)] assms(2,3) obtain w2 where
    run: "upload_batches sv foods batch_size ((length foods + batch_size - 1) div batch_size)
              (last_batch (load_progress w)) (load_progress w) (total_uploaded (load_progress w)) w =
              (oc, n, w2)"
    and w': "w' = w2 \<or> w' = w2\<lparr> progress_file := None \<rparr>"
    by auto
  from w' have same: "embedding_requests w' = embedding_requests w2"
    by auto
  then have "request_fails sv w' = request_fails sv w2"
    by (simp add: request_fails_def fun_eq_iff)
  with upload_batches_exhausted_last [OF run] assms(2-6) same show ?thesis
    by simp
qed

lemma batch_upload_stopped:
  assumes "batch_upload_foods sv foods batch_size w = Inr (Halted k, n, w')"
  shows "\<exists>evs. events w' = events w @ evs @ [Failed k] \<and> list_all (before_batch k) evs \<and>
           n = total_uploaded (load_progress w) +
                 sum_list (map (\<lambda>j. length (batch_of foods batch_size j)) (committed evs)) \<and>
           last (embedding_requests w') = map embedding_text (batch_of foods batch_size k) \<and>
           (writes_ok sv w w' \<longrightarrow>
              load_progress w' = replay foods batch_size (load_progress w) evs \<and>
              (committed evs = [] \<longrightarrow> progress_file w' = progress_file w) \<and>
              n = total_uploaded (load_progress w') \<and>
              last_batch (load_progress w') \<le> k \<and>
              uploaded_ids (load_progress w') =
                uploaded_ids (load_progress w) @
                concat (map (\<lambda>j. map external_id (batch_of foods batch_size j)) (committed evs)) \<and>
              (distinct (map external_id foods) \<and>
               set (uploaded_ids (load_progress w)) \<inter> external_id ` set foods = {} \<longrightarrow>
                 set (uploaded_ids (load_progress w')) \<inter>
                   external_id ` set (batch_of foods batch_size k) = {}))"
proof -
  let ?p = "load_progress w"
  from batch_upload_run [OF assms] obtain w2 where
    run: "upload_batches sv foods batch_size ((length foods + batch_size - 1) div batch_size)
              (last_batch ?p) ?p (total_uploaded ?p) w = (Halted k, n, w2)"
    and w': "w' = w2 \<or> w' = w2\<lparr> progress_file := None \<rparr>"
    by auto
  have "w' = w2"
  proof (cases "foods = [] \<or> batch_size = 0")
    case True
    with assms show ?thesis
      by (auto simp: batch_upload_foods_def Let_def split: if_splits)
  next
    case False
    with assms run show ?thesis
      by (simp add: batch_upload_foods_def Let_def)
  qed
  with run have run':
    "upload_batches sv foods batch_size ((length foods + batch_size - 1) div batch_size)
              (last_batch ?p) ?p (total_uploaded ?p) w = (Halted k, n, w')"
    by simp
  from upload_batches_halted [OF run'] obtain evs where
    evs: "events w' = events w @ evs @ [Failed k]" "list_all (before_batch k) evs"
      "last_batch ?p \<le> k"
      "n = total_uploaded ?p +
             sum_list (map (\<lambda>j. length (batch_of foods batch_size j)) (committed evs))"
      "last (embedding_requests w') = map embedding_text (batch_of foods batch_size k)"
      "writes_ok sv w w' \<longrightarrow>
              load_progress w' = replay foods batch_size ?p evs \<and>
              (committed evs = [] \<longrightarrow> progress_file w' = progress_file w)"
    by blast
  have persisted: "load_progress w' = replay foods batch_size ?p evs \<and>
              (committed evs = [] \<longrightarrow> progress_file w' = progress_file w) \<and>
              n = total_uploaded (load_progress w') \<and>
              last_batch (load_progress w') \<le> k \<and>
              uploaded_ids (load_progress w') =
                uploaded_ids ?p @
                concat (map (\<lambda>j. map external_id (batch_of foods batch_size j)) (committed evs)) \<and>
              (distinct (map external_id foods) \<and>
               set (uploaded_ids ?p) \<inter> external_id ` set foods = {} \<longrightarrow>
                 set (uploaded_ids (load_progress w')) \<inter>
                   external_id ` set (batch_of foods batch_size k) = {})"
    if ok: "writes_ok sv w w'"
  proof -
    from evs(6) ok have lp: "load_progress w' = replay foods batch_size ?p evs"
      and untouched: "committed evs = [] \<longrightarrow> progress_file w' = progress_file w"
      by simp_all
    have total: "n = total_uploaded (load_progress w')"
      unfolding lp replay_total by (rule evs(4))
    have lb: "last_batch (load_progress w') \<le> k"
      unfolding lp by (rule replay_last_batch [OF evs(2,3)])
    have ids: "uploaded_ids (load_progress w') =
                uploaded_ids ?p @
                concat (map (\<lambda>j. map external_id (batch_of foods batch_size j)) (committed evs))"
      unfolding lp by (rule replay_ids)
    have disj: "set (uploaded_ids (load_progress w')) \<inter>
                   external_id ` set (batch_of foods batch_size k) = {}"
      if a: "distinct (map external_id foods) \<and>
               set (uploaded_ids ?p) \<inter> external_id ` set foods = {}"
    proof -
      have old: "set (uploaded_ids ?p) \<inter> external_id ` set (batch_of foods batch_size k) = {}"
        using a batch_of_subset [of foods batch_size k] by blast
      have new: "external_id ` set (batch_of foods batch_size j) \<inter>
               external_id ` set (batch_of foods batch_size k) = {}"
        if "j \<in> set (committed evs)" for j
        using a committed_before [OF evs(2) that] by (intro batch_ids_disjoint) simp_all
      show ?thesis
        unfolding ids using old new by auto
    qed
    from lp untouched total lb ids disj show ?thesis
      by blast
  qed
  from evs(1,2,4,5) persisted show ?thesis
    by blast
qed

text \<open>
  Claim C2, as amended. (1) When the three requests for the embeddings of batch \<open>i\<close> all
  fail, the loop stops at once: it returns the count it had, and it leaves the world as it
  was but for the three requests and the error message; nothing is upserted and the
  progress file is not written. (2) When the upsert of batch \<open>i\<close> raises, the loop stops at
  once in the same way, the failed upsert being its last request. (3) In every run of
  \<^verbatim>\<open>batch_upload_foods\<close>, an upsert that raises is the last upsert of the run, three
  failed embedding requests in a row are the last requests of the run, and in both cases
  the run ends in the \<^verbatim>\<open>except\<close> branch. (4) A run that stops at batch \<open>k\<close> has committed
  or skipped batches before \<open>k\<close> only, its last embedding request is the one for batch
  \<open>k\<close>, and it returns the count of the ledger found at the start plus the sizes of the
  batches it committed. If every write of the progress file made in the run succeeded, the
  ledger in the file is the one found at the start with exactly the committed batches
  replayed on it (the file is untouched when none was committed): its total is the count
  returned, its batch index is at most \<open>k\<close>, its uploaded ids are those of the start
  followed by those of the committed batches, and, for records with distinct ids none of
  which is in the ledger at the start, no id of batch \<open>k\<close> is among them.
\<close>

theorem failure_atomicity:
  "(i < total_batches \<and>
    isl (embeddings_create sv (length (embedding_requests w0))
           (map embedding_text (batch_of foods batch_size i))) \<and>
    isl (embeddings_create sv (length (embedding_requests w0) + 1)
           (map embedding_text (batch_of foods batch_size i))) \<and>
    isl (embeddings_create sv (length (embedding_requests w0) + 2)
           (map embedding_text (batch_of foods batch_size i))) \<longrightarrow>
      upload_batches sv foods batch_size total_batches i progress uploaded_count w0 =
        (Halted i, uploaded_count,
         w0\<lparr> embedding_requests :=
               embedding_requests w0 @ replicate 3 (map embedding_text (batch_of foods batch_size i)),
             events := events w0 @ [Failed i] \<rparr>)) \<and>
   (i < total_batches \<and>
    generate_embeddings sv (map embedding_text (batch_of foods batch_size i)) w0 = (Inr es, w1) \<and>
    length es = length (batch_of foods batch_size i) \<and>
    upsert_fails sv (length (upsert_requests w0)) \<longrightarrow>
      upload_batches sv foods batch_size total_batches i progress uploaded_count w0 =
        (Halted i, uploaded_count,
         w0\<lparr> embedding_requests := embedding_requests w1,
             upsert_requests :=
               upsert_requests w0 @ [map2 upload_row_of (batch_of foods batch_size i) es],
             events := events w0 @ [Failed i] \<rparr>)) \<and>
   (batch_upload_foods sv foods batch_size w = Inr (oc, n, w') \<longrightarrow>
      (\<forall>j. length (upsert_requests w) \<le> j \<and> j < length (upsert_requests w') \<and>
           upsert_fails sv j \<longrightarrow>
           Suc j = length (upsert_requests w') \<and> (\<exists>k. oc = Halted k)) \<and>
      (\<forall>j. length (embedding_requests w) \<le> j \<and> j + 2 < length (embedding_requests w') \<and>
           request_fails sv w' j \<and> request_fails sv w' (j + 1) \<and> request_fails sv w' (j + 2) \<longrightarrow>
           j + 3 = length (embedding_requests w') \<and> (\<exists>k. oc = Halted k))) \<and>
   (batch_upload_foods sv foods batch_size w = Inr (Halted k, n, w') \<longrightarrow>
      (\<exists>evs. events w' = events w @ evs @ [Failed k] \<and> list_all (before_batch k) evs \<and>
           n = total_uploaded (load_progress w) +
                 sum_list (map (\<lambda>j. length (batch_of foods batch_size j)) (committed evs)) \<and>
           last (embedding_requests w') = map embedding_text (batch_of foods batch_size k) \<and>
           (writes_ok sv w w' \<longrightarrow>
              load_progress w' = replay foods batch_size (load_progress w) evs \<and>
              (committed evs = [] \<longrightarrow> progress_file w' = progress_file w) \<and>
              n = total_uploaded (load_progress w') \<and>
              last_batch (load_progress w') \<le> k \<and>
              uploaded_ids (load_progress w') =
                uploaded_ids (load_progress w) @
                concat (map (\<lambda>j. map external_id (batch_of foods batch_size j)) (committed evs)) \<and>
              (distinct (map external_id foods) \<and>
               set (uploaded_ids (load_progress w)) \<inter> external_id ` set foods = {} \<longrightarrow>
                 set (uploaded_ids (load_progress w')) \<inter>
                   external_id ` set (batch_of foods batch_size k) = {}))))"
proof (intro conjI impI allI)
  let ?batch = "batch_of foods batch_size i"
  let ?texts = "map embedding_text ?batch"
  let ?L = "length (embedding_requests w0)"
  {
    assume a: "i < total_batches \<and>
      isl (embeddings_create sv ?L ?texts) \<and> isl (embeddings_create sv (?L + 1) ?texts) \<and>
      isl (embeddings_create sv (?L + 2) ?texts)"
    then obtain e0 e1 e2 where
      e: "embeddings_create sv ?L ?texts = Inl e0"
        "embeddings_create sv (Suc ?L) ?texts = Inl e1"
        "embeddings_create sv (Suc (Suc ?L)) ?texts = Inl e2"
      by (auto simp: isl_def)
    from a have lt: "i < total_batches" by simp
    show "upload_batches sv foods batch_size total_batches i progress uploaded_count w0 =
        (Halted i, uploaded_count,
         w0\<lparr> embedding_requests := embedding_requests w0 @ replicate 3 ?texts,
             events := events w0 @ [Failed i] \<rparr>)"
      unfolding upload_batches_embed_fail [OF lt generate_embeddings_exhausted [OF e]]
      by (simp add: numeral_3_eq_3)
  }
  {
    assume a: "i < total_batches \<and> generate_embeddings sv ?texts w0 = (Inr es, w1) \<and>
      length es = length ?batch \<and> upsert_fails sv (length (upsert_requests w0))"
    then have lt: "i < total_batches" and gen: "generate_embeddings sv ?texts w0 = (Inr es, w1)"
      and len: "length es = length ?batch"
      by simp_all
    from generate_embeddings_world [OF gen] have
      same: "progress_file w1 = progress_file w0" "foods_table w1 = foods_table w0"
        "upsert_requests w1 = upsert_requests w0" "events w1 = events w0"
        "progress_writes w1 = progress_writes w0"
      by simp_all
    from a same(3) have fails: "upsert_fails sv (length (upsert_requests w1))"
      by simp
    have "w1\<lparr> upsert_requests := upsert_requests w1 @ [map2 upload_row_of ?batch es],
             events := events w1 @ [Failed i] \<rparr> =
          w0\<lparr> embedding_requests := embedding_requests w1,
             upsert_requests := upsert_requests w0 @ [map2 upload_row_of ?batch es],
             events := events w0 @ [Failed i] \<rparr>"
      by (rule world.equality) (simp_all add: same)
    then show "upload_batches sv foods batch_size total_batches i progress uploaded_count w0 =
        (Halted i, uploaded_count,
         w0\<lparr> embedding_requests := embedding_requests w1,
             upsert_requests := upsert_requests w0 @ [map2 upload_row_of ?batch es],
             events := events w0 @ [Failed i] \<rparr>)"
      unfolding upload_batches_upsert_fail [OF lt gen len fails] by simp
  }
  {
    fix j
    assume run: "batch_upload_foods sv foods batch_size w = Inr (oc, n, w')"
      and j: "length (upsert_requests w) \<le> j \<and> j < length (upsert_requests w') \<and> upsert_fails sv j"
    have r: "Suc j = length (upsert_requests w') \<and> (\<exists>k. oc = Halted k)"
      by (rule batch_upload_upsert_last [OF run]) (use j in simp_all)
    from r show "Suc j = length (upsert_requests w')" ..
    from r show "\<exists>k. oc = Halted k" ..
  }
  {
    fix j
    assume run: "batch_upload_foods sv foods batch_size w = Inr (oc, n, w')"
      and j: "length (embedding_requests w) \<le> j \<and> j + 2 < length (embedding_requests w') \<and>
           request_fails sv w' j \<and> request_fails sv w' (j + 1) \<and> request_fails sv w' (j + 2)"
    have r: "j + 3 = length (embedding_requests w') \<and> (\<exists>k. oc = Halted k)"
      by (rule batch_upload_exhausted_last [OF run]) (use j in simp_all)
    from r show "j + 3 = length (embedding_requests w')" ..
    from r show "\<exists>k. oc = Halted k" ..
  }
  {
    assume "batch_upload_foods sv foods batch_size w = Inr (Halted k, n, w')"
    then show "\<exists>evs. events w' = events w @ evs @ [Failed k] \<and> list_all (before_batch k) evs \<and>
           n = total_uploaded (load_progress w) +
                 sum_list (map (\<lambda>j. length (batch_of foods batch_size j)) (committed evs)) \<and>
           last (embedding_requests w') = map embedding_text (batch_of foods batch_size k) \<and>
           (writes_ok sv w w' \<longrightarrow>
              load_progress w' = replay foods batch_size (load_progress w) evs \<and>
              (committed evs = [] \<longrightarrow> progress_file w' = progress_file w) \<and>
              n = total_uploaded (load_progress w') \<and>
              last_batch (load_progress w') \<le> k \<and>
              uploaded_ids (load_progress w') =
                uploaded_ids (load_progress w) @
                concat (map (\<lambda>j. map external_id (batch_of foods batch_size j)) (committed evs)) \<and>
              (distinct (map external_id foods) \<and>
               set (uploaded_ids (load_progress w)) \<inter> external_id ` set foods = {} \<longrightarrow>
                 set (uploaded_ids (load_progress w')) \<inter>
                   external_id ` set (batch_of foods batch_size k) = {}))"
      by (rule batch_upload_stopped)
  }
qed

subsection \<open>Two runs of the uploader\<close>

lemma digit_char_inj:
  assumes "a < 10" and "b < 10" and "digit_char a = digit_char b"
  shows "a = b"
proof -
  have d: "distinct ''0123456789''" by simp
  have l: "length ''0123456789'' = 10" by simp
  from assms show ?thesis
    unfolding digit_char_def using d l
    by (metis mod_less nth_eq_iff_index_eq)
qed

lemma str_nat_not_Nil: "str_nat n \<noteq> []"
  by (subst str_nat.simps) simp

lemma str_nat_inj: "str_nat n = str_nat m \<Longrightarrow> n = m"
proof (induction n arbitrary: m rule: less_induct)
  case (less n)
  show ?case
  proof (cases "n < 10")
    case n: True
    show ?thesis
    proof (cases "m < 10")
      case True
      with n less.prems have "digit_char n = digit_char m"
        by (simp add: str_nat.simps [of n] str_nat.simps [of m])
      with n True show ?thesis by (rule digit_char_inj)
    next
      case False
      with n less.prems have "[digit_char n] = str_nat (m div 10) @ [digit_char m]"
        by (simp add: str_nat.simps [of n] str_nat.simps [of m])
      then have "str_nat (m div 10) = []" by simp
      with str_nat_not_Nil show ?thesis by blast
    qed
  next
    case n: False
    show ?thesis
    proof (cases "m < 10")
      case True
      with n less.prems have "str_nat (n div 10) @ [digit_char n] = [digit_char m]"
        by (simp add: str_nat.simps [of n] str_nat.simps [of m])
      then have "str_nat (n div 10) = []" by simp
      with str_nat_not_Nil show ?thesis by blast
    next
      case False
      with n less.prems have
        "str_nat (n div 10) @ [digit_char n] = str_nat (m div 10) @ [digit_char m]"
        by (simp add: str_nat.simps [of n] str_nat.simps [of m])
      then have a: "str_nat (n div 10) = str_nat (m div 10)" and b: "digit_char n = digit_char m"
        by simp_all
      from n have "n div 10 < n" by simp
      from less.IH [OF this a] have q: "n div 10 = m div 10" .
      have "digit_char (n mod 10) = digit_char (m mod 10)"
        using b by (simp add: digit_char_def)
      then have r: "n mod 10 = m mod 10"
        by (intro digit_char_inj) simp_all
      from q r show ?thesis
        by (metis div_mult_mod_eq)
    qed
  qed
qed

lemma external_id_mk_food [simp]: "external_id (mk_food i) = str_nat i"
  by (simp add: mk_food_def)

lemma embedding_text_mk_food [simp]: "embedding_text (mk_food i) = ''butter '' @ str_nat i"
  by (simp add: mk_food_def)

lemma mk_food_id_eq [simp]: "(str_nat i = str_nat j) = (i = j)"
  using str_nat_inj by blast

lemma distinct_foods_range: "distinct (map external_id (foods_range a b))"
  by (simp add: foods_range_def distinct_map inj_on_def comp_def)

lemma distinct_foods_upto: "distinct (map external_id (foods_upto n))"
  by (simp add: foods_upto_def distinct_foods_range)

lemma ids_foods_range: "external_id ` set (foods_range a b) = str_nat ` {a..<b}"
  by (simp add: foods_range_def image_image)

lemma length_foods_range [simp]: "length (foods_range a b) = b - a"
  by (simp add: foods_range_def)

lemma length_foods_upto [simp]: "length (foods_upto n) = n"
  by (simp add: foods_upto_def)

lemma foods_range_not_Nil: "a < b \<Longrightarrow> foods_range a b \<noteq> []"
  by (simp add: foods_range_def)

lemma foods_upto_not_Nil: "0 < n \<Longrightarrow> foods_upto n \<noteq> []"
  by (simp add: foods_upto_def foods_range_not_Nil)

lemma batch_of_foods_range:
  "batch_of (foods_range a b) bs i = foods_range (a + i * bs) (min (a + i * bs + bs) b)"
proof -
  have "take bs [a + i * bs..<b] = [a + i * bs..<min (a + i * bs + bs) b]"
    by (cases "a + i * bs + bs \<le> b") (simp_all add: min_def)
  then show ?thesis
    by (simp add: batch_of_take_drop foods_range_def take_map drop_map add.commute)
qed

lemma foods_range_single: "foods_range a (Suc a) = [mk_food a]"
  by (simp add: foods_range_def)

lemma filter_remaining:
  assumes "a \<le> b"
  shows "filter (\<lambda>f. external_id f \<notin> external_id ` set (foods_upto a) \<and>
                     external_id f \<notin> set (map external_id (foods_upto a))) (foods_upto b) =
         foods_range a b"
proof -
  have "[0..<b] = [0..<a] @ [a..<b]"
    using assms by (metis le_add_diff_inverse upt_add_eq_append zero_le)
  moreover have "filter (\<lambda>i. a \<le> i) [0..<a] = []"
    by (simp add: filter_empty_conv)
  moreover have "filter (\<lambda>i. a \<le> i) [a..<b] = [a..<b]"
    by (simp add: filter_id_conv)
  ultimately have "filter (\<lambda>i. a \<le> i) [0..<b] = [a..<b]"
    by simp
  moreover have "(str_nat i \<notin> str_nat ` {0..<a}) = (a \<le> i)" for i
    by (auto simp: image_iff)
  ultimately show ?thesis
    by (simp add: foods_upto_def foods_range_def filter_map comp_def image_image)
qed

lemma str_nat_50: "str_nat 50 = ''50''"
  by (simp add: str_nat.simps digit_char_def)

lemma str_nat_100: "str_nat 100 = ''100''"
  by (simp add: str_nat.simps digit_char_def)

lemma upsert_row_fresh:
  "row_external_id r \<notin> row_external_id ` set table \<Longrightarrow> upsert_row r table = table @ [r]"
  by (induction table) auto

lemma upsert_fresh:
  "distinct (map row_external_id rows) \<Longrightarrow>
   row_external_id ` set rows \<inter> row_external_id ` set table = {} \<Longrightarrow>
   upsert rows table = table @ rows"
  unfolding upsert_def
proof (induction rows arbitrary: table)
  case Nil
  then show ?case by simp
next
  case (Cons r rows)
  from Cons.prems have fresh: "row_external_id r \<notin> row_external_id ` set table"
    by auto
  have "foldl (\<lambda>t r. upsert_row r t) (table @ [r]) rows = (table @ [r]) @ rows"
    using Cons.prems by (intro Cons.IH) auto
  then show ?case
    by (simp add: upsert_row_fresh [OF fresh])
qed

lemma row_id_zero_rows [simp]: "map row_external_id (zero_rows fs) = map external_id fs"
  by (simp add: zero_rows_def upload_row_of_def comp_def)

lemma map2_zero_rows:
  "map2 upload_row_of fs (map (\<lambda>t. [0]) (map embedding_text fs)) = zero_rows fs"
  by (induction fs) (simp_all add: zero_rows_def)

lemma generate_embeddings_ok:
  "embeddings_create sv (length (embedding_requests w)) texts = Inr es \<Longrightarrow>
   generate_embeddings sv texts w =
     (Inr es, w\<lparr> embedding_requests := embedding_requests w @ [texts] \<rparr>)"
  unfolding generate_embeddings_def
  by (subst generate_embeddings_from.simps) (simp add: Let_def)

lemma existing_small_table:
  assumes "\<not> select_fails sv 0" and "length (foods_table w) < page_size"
  shows "get_existing_food_ids (select_page sv w) = Some (row_external_id ` set (foods_table w))"
  unfolding get_existing_food_ids_def using assms
  by (subst fetch_pages.simps) (auto simp: select_page_def)

lemma main_uploads:
  assumes "loaded \<noteq> []"
    and "get_existing_food_ids (select_page sv w) = Some existing_ids"
    and "filter (\<lambda>f. external_id f \<notin> existing_ids \<and>
            external_id f \<notin> set (uploaded_ids (load_progress w))) loaded = new_foods"
    and "new_foods \<noteq> []"
    and "last_batch (load_progress w) \<noteq> 0 \<or> lower (confirm_input sv) = ''y''"
    and "batch_upload_foods sv new_foods 50 w = Inr (oc, uploaded, w')"
  shows "main sv loaded None w = Some (Uploaded oc uploaded, w')"
  using assms
  by (auto simp: main_def apply_limit_def filter_new_foods_def filter_loop_eq Let_def)

lemma batch_upload_completed:
  assumes "foods \<noteq> []" and "batch_size \<noteq> 0"
    and "upload_batches sv foods batch_size ((length foods + batch_size - 1) div batch_size)
           (last_batch (load_progress w)) (load_progress w) (total_uploaded (load_progress w)) w =
         (Completed, n, w')"
  shows "batch_upload_foods sv foods batch_size w = Inr (Completed, n, w'\<lparr> progress_file := None \<rparr>)"
  using assms by (simp add: batch_upload_foods_def Let_def)

lemma batch_upload_halted:
  assumes "foods \<noteq> []" and "batch_size \<noteq> 0"
    and "upload_batches sv foods batch_size ((length foods + batch_size - 1) div batch_size)
           (last_batch (load_progress w)) (load_progress w) (total_uploaded (load_progress w)) w =
         (Halted k, n, w')"
  shows "batch_upload_foods sv foods batch_size w = Inr (Halted k, n, w')"
  using assms by (simp add: batch_upload_foods_def Let_def)

text \<open>
  The loop starts at the batch index of the ledger, counted in the list it is given. When
  that list has no more than \<open>last_batch * batch_size\<close> records, no batch is processed:
  the function removes the progress file and returns the old count.
\<close>

lemma batch_upload_starts_past_end:
  assumes "foods \<noteq> []" and "batch_size \<noteq> 0"
    and "length foods \<le> last_batch (load_progress w) * batch_size"
  shows "batch_upload_foods sv foods batch_size w =
           Inr (Completed, total_uploaded (load_progress w), w\<lparr> progress_file := None \<rparr>)"
proof -
  have "length foods + batch_size - 1 < (last_batch (load_progress w) + 1) * batch_size"
    using assms(2,3) by simp
  then have "(length foods + batch_size - 1) div batch_size < last_batch (load_progress w) + 1"
    using assms(2) by (simp add: less_mult_imp_div_less)
  then have "(length foods + batch_size - 1) div batch_size \<le> last_batch (load_progress w)"
    by simp
  then show ?thesis
    by (intro batch_upload_completed assms(1,2) upload_batches_done)
qed

lemma load_progress_empty:
  "load_progress empty_world = \<lparr> uploaded_ids = [], last_batch = 0, total_uploaded = 0 \<rparr>"
  by (simp add: load_progress_def empty_world_def)

lemma lower_y: "lower ''y'' = ''y''"
  by (simp add: lower_def lower_char_def is_upper_def)

lemma batch_51_0: "batch_of (foods_upto 51) 50 0 = foods_upto 50"
  by (simp add: foods_upto_def batch_of_foods_range)

lemma batch_51_1: "batch_of (foods_upto 51) 50 1 = [mk_food 50]"
  using foods_range_single [of 50] by (simp add: foods_upto_def batch_of_foods_range)

lemma first_run_batches:
  "upload_batches fails_after_first (foods_upto 51) 50 2 0
     \<lparr> uploaded_ids = [], last_batch = 0, total_uploaded = 0 \<rparr> 0 empty_world =
   (Halted 1, 50, after_first_run)"
proof -
  let ?sv = fails_after_first
  let ?fs = "foods_upto 51"
  let ?p0 = "\<lparr> uploaded_ids = [], last_batch = 0, total_uploaded = 0 \<rparr>"
  let ?w1 = "empty_world\<lparr> embedding_requests := [map embedding_text (foods_upto 50)] \<rparr>"
  let ?es = "map (\<lambda>t. [0::real]) (map embedding_text (foods_upto 50))"
  let ?p1 = "\<lparr> uploaded_ids = map external_id (foods_upto 50), last_batch = 1,
               total_uploaded = 50 \<rparr>"
  let ?w4 = "\<lparr> progress_file = Some ?p1, foods_table = zero_rows (foods_upto 50),
       embedding_requests = [map embedding_text (foods_upto 50)],
       upsert_requests = [zero_rows (foods_upto 50)],
       events = [Committed 0], progress_writes = [first_ledger] \<rparr>"
  have g0: "generate_embeddings ?sv (map embedding_text (batch_of ?fs 50 0)) empty_world = (Inr ?es, ?w1)"
    unfolding batch_51_0
    by (subst generate_embeddings_ok [where es = ?es])
       (simp_all add: fails_after_first_def all_fine_def empty_world_def)
  have len: "length ?es = length (batch_of ?fs 50 0)"
    unfolding batch_51_0 by simp
  have ok: "\<not> upsert_fails ?sv (length (upsert_requests ?w1))"
    by (simp add: fails_after_first_def all_fine_def)
  have ups: "upsert (zero_rows (foods_upto 50)) [] = zero_rows (foods_upto 50)"
    using upsert_fresh [of "zero_rows (foods_upto 50)" "[]"] distinct_foods_upto [of 50]
    by simp
  have step0: "upload_batches ?sv ?fs 50 2 0 ?p0 0 empty_world =
      upload_batches ?sv ?fs 50 2 1 ?p1 50 ?w4"
    by (subst upload_batches_commit [OF _ g0 len ok])
       (simp_all add: batch_51_0 map2_zero_rows ups empty_world_def save_progress_def
          fails_after_first_def all_fine_def first_ledger_def del: map_map)
  let ?t = "[''butter 50'']"
  have g1: "generate_embeddings ?sv (map embedding_text (batch_of ?fs 50 1)) ?w4 =
      (Inl ServiceError, ?w4\<lparr> embedding_requests := embedding_requests ?w4 @ [?t, ?t, ?t] \<rparr>)"
    unfolding batch_51_1
    by (subst generate_embeddings_exhausted [where ?e0.0 = ServiceError and ?e1.0 = ServiceError
          and ?e2.0 = ServiceError])
       (simp_all add: fails_after_first_def all_fine_def str_nat_50)
  have step1: "upload_batches ?sv ?fs 50 2 1 ?p1 50 ?w4 = (Halted 1, 50, after_first_run)"
    by (subst upload_batches_embed_fail [OF _ g1]) (simp_all add: after_first_run_def)
  from step0 step1 show ?thesis by simp
qed

lemma first_run:
  "main fails_after_first (foods_upto 51) None empty_world =
     Some (Uploaded (Halted 1) 50, after_first_run)"
proof (rule main_uploads)
  show "foods_upto 51 \<noteq> []" by (simp add: foods_upto_not_Nil)
  show "get_existing_food_ids (select_page fails_after_first empty_world) = Some {}"
    using existing_small_table [of fails_after_first empty_world]
    by (simp add: fails_after_first_def all_fine_def empty_world_def page_size_def)
  show "filter (\<lambda>f. external_id f \<notin> {} \<and>
            external_id f \<notin> set (uploaded_ids (load_progress empty_world))) (foods_upto 51) =
        foods_upto 51"
    by (simp add: load_progress_empty)
  show "foods_upto 51 \<noteq> []" by (simp add: foods_upto_not_Nil)
  show "last_batch (load_progress empty_world) \<noteq> 0 \<or> lower (confirm_input fails_after_first) = ''y''"
    by (simp add: fails_after_first_def all_fine_def lower_y)
  show "batch_upload_foods fails_after_first (foods_upto 51) 50 empty_world =
          Inr (Halted 1, 50, after_first_run)"
    by (rule batch_upload_halted)
       (simp_all add: foods_upto_not_Nil load_progress_empty first_run_batches)
qed

lemma load_progress_after_first_run:
  "load_progress after_first_run =
     \<lparr> uploaded_ids = map external_id (foods_upto 50), last_batch = 1, total_uploaded = 50 \<rparr>"
  by (simp add: load_progress_def after_first_run_def)

lemma length_zero_rows [simp]: "length (zero_rows fs) = length fs"
  by (simp add: zero_rows_def)

lemma row_ids_zero_rows: "row_external_id ` set (zero_rows fs) = external_id ` set fs"
  by (simp add: zero_rows_def upload_row_of_def image_image)

lemma existing_after_first_run:
  "get_existing_food_ids (select_page all_fine after_first_run) =
     Some (external_id ` set (foods_upto 50))"
proof -
  have t: "foods_table after_first_run = zero_rows (foods_upto 50)"
    by (simp add: after_first_run_def)
  have "\<not> select_fails all_fine 0"
    by (simp add: all_fine_def)
  moreover have "length (foods_table after_first_run) < page_size"
    by (simp add: t page_size_def)
  ultimately show ?thesis
    using existing_small_table [of all_fine after_first_run]
    by (simp add: t row_ids_zero_rows)
qed

lemma second_run:
  "main all_fine (foods_upto 51) None after_first_run =
     Some (Uploaded Completed 50, after_first_run\<lparr> progress_file := None \<rparr>)"
proof (rule main_uploads)
  show "foods_upto 51 \<noteq> []" by (simp add: foods_upto_not_Nil)
  show "get_existing_food_ids (select_page all_fine after_first_run) =
          Some (external_id ` set (foods_upto 50))"
    by (rule existing_after_first_run)
  show "filter (\<lambda>f. external_id f \<notin> external_id ` set (foods_upto 50) \<and>
            external_id f \<notin> set (uploaded_ids (load_progress after_first_run))) (foods_upto 51) =
        foods_range 50 51"
    unfolding load_progress_after_first_run using filter_remaining [of 50 51] by simp
  show "foods_range 50 51 \<noteq> []" by (simp add: foods_range_not_Nil)
  show "last_batch (load_progress after_first_run) \<noteq> 0 \<or> lower (confirm_input all_fine) = ''y''"
    by (simp add: load_progress_after_first_run)
  show "batch_upload_foods all_fine (foods_range 50 51) 50 after_first_run =
          Inr (Completed, 50, after_first_run\<lparr> progress_file := None \<rparr>)"
    by (rule batch_upload_completed)
       (simp_all add: foods_range_not_Nil load_progress_after_first_run upload_batches_done)
qed

lemma record_50_missing:
  "external_id (mk_food 50) \<notin> row_external_id ` set (foods_table after_first_run)"
proof -
  have "row_external_id ` set (foods_table after_first_run) = str_nat ` {0..<50}"
    by (simp add: after_first_run_def foods_upto_def ids_foods_range row_ids_zero_rows)
  then show ?thesis
    by (auto simp: image_iff)
qed

text \<open>
  Claim C1, evaluated on the code. The input has 51 new records. The first run commits
  batch 0 and stops at batch 1 when the embedding service fails; the ledger then records
  batch index 1 and the 50 uploaded ids. The rerun on the same input filters these 50
  ids out, is left with one record, and starts at batch 1 of that list: it sends no
  request, uploads nothing, removes the progress file and returns 50. Record 50 is
  not in the table.
\<close>

theorem resume_skips_remaining_batch:
  "main fails_after_first (foods_upto 51) None empty_world =
     Some (Uploaded (Halted 1) 50, after_first_run) \<and>
   main all_fine (foods_upto 51) None after_first_run =
     Some (Uploaded Completed 50, after_first_run\<lparr> progress_file := None \<rparr>) \<and>
   external_id (mk_food 50) \<notin> row_external_id ` set (foods_table after_first_run)"
  using first_run second_run record_50_missing by (intro conjI)

lemma batch_101_0: "batch_of (foods_upto 101) 50 0 = foods_upto 50"
  by (simp add: foods_upto_def batch_of_foods_range)

lemma batch_101_1: "batch_of (foods_upto 101) 50 1 = foods_range 50 100"
  by (simp add: foods_upto_def batch_of_foods_range)

lemma batch_101_2: "batch_of (foods_upto 101) 50 2 = [mk_food 100]"
  using foods_range_single [of 100] by (simp add: foods_upto_def batch_of_foods_range)

lemma batch_rest_1: "batch_of (foods_range 50 101) 50 1 = [mk_food 100]"
  using foods_range_single [of 100] by (simp add: batch_of_foods_range)

lemma mismatch_run_batches:
  "upload_batches mismatch_then_fail (foods_upto 101) 50 3 0
     \<lparr> uploaded_ids = [], last_batch = 0, total_uploaded = 0 \<rparr> 0 empty_world =
   (Halted 2, 50, after_mismatch_run)"
proof -
  let ?sv = mismatch_then_fail
  let ?fs = "foods_upto 101"
  let ?p0 = "\<lparr> uploaded_ids = [], last_batch = 0, total_uploaded = 0 \<rparr>"
  let ?w1 = "empty_world\<lparr> embedding_requests := [map embedding_text (foods_upto 50)] \<rparr>"
  let ?es = "map (\<lambda>t. [0::real]) (map embedding_text (foods_upto 50))"
  let ?p1 = "\<lparr> uploaded_ids = map external_id (foods_upto 50), last_batch = 1,
               total_uploaded = 50 \<rparr>"
  let ?w4 = "\<lparr> progress_file = Some ?p1, foods_table = zero_rows (foods_upto 50),
       embedding_requests = [map embedding_text (foods_upto 50)],
       upsert_requests = [zero_rows (foods_upto 50)],
       events = [Committed 0], progress_writes = [first_ledger] \<rparr>"
  have g0: "generate_embeddings ?sv (map embedding_text (batch_of ?fs 50 0)) empty_world = (Inr ?es, ?w1)"
    unfolding batch_101_0
    by (subst generate_embeddings_ok [where es = ?es])
       (simp_all add: mismatch_then_fail_def all_fine_def empty_world_def)
  have len: "length ?es = length (batch_of ?fs 50 0)"
    unfolding batch_101_0 by simp
  have ok: "\<not> upsert_fails ?sv (length (upsert_requests ?w1))"
    by (simp add: mismatch_then_fail_def all_fine_def)
  have ups: "upsert (zero_rows (foods_upto 50)) [] = zero_rows (foods_upto 50)"
    using upsert_fresh [of "zero_rows (foods_upto 50)" "[]"] distinct_foods_upto [of 50]
    by simp
  have step0: "upload_batches ?sv ?fs 50 3 0 ?p0 0 empty_world =
      upload_batches ?sv ?fs 50 3 1 ?p1 50 ?w4"
    by (subst upload_batches_commit [OF _ g0 len ok])
       (simp_all add: batch_101_0 map2_zero_rows ups empty_world_def save_progress_def
          mismatch_then_fail_def all_fine_def first_ledger_def del: map_map)
  let ?w5 = "?w4\<lparr> embedding_requests := embedding_requests ?w4 @
                     [map embedding_text (foods_range 50 100)] \<rparr>"
  have g1: "generate_embeddings ?sv (map embedding_text (batch_of ?fs 50 1)) ?w4 = (Inr [], ?w5)"
    unfolding batch_101_1
    by (subst generate_embeddings_ok [where es = "[]"])
       (simp_all add: mismatch_then_fail_def all_fine_def)
  have ne: "length ([] :: real list list) \<noteq> length (batch_of ?fs 50 1)"
    unfolding batch_101_1 by simp
  let ?w6 = "?w5\<lparr> events := events ?w5 @ [Mismatch 1] \<rparr>"
  have step1: "upload_batches ?sv ?fs 50 3 1 ?p1 50 ?w4 = upload_batches ?sv ?fs 50 3 2 ?p1 50 ?w6"
    by (subst upload_batches_mismatch [OF _ g1 ne]) (simp_all add: numeral_2_eq_2 [symmetric])
  let ?t = "[''butter 100'']"
  have g2: "generate_embeddings ?sv (map embedding_text (batch_of ?fs 50 2)) ?w6 =
      (Inl ServiceError, ?w6\<lparr> embedding_requests := embedding_requests ?w6 @ [?t, ?t, ?t] \<rparr>)"
    unfolding batch_101_2
    by (subst generate_embeddings_exhausted [where ?e0.0 = ServiceError and ?e1.0 = ServiceError
          and ?e2.0 = ServiceError])
       (simp_all add: mismatch_then_fail_def all_fine_def str_nat_100)
  have step2: "upload_batches ?sv ?fs 50 3 2 ?p1 50 ?w6 = (Halted 2, 50, after_mismatch_run)"
    by (subst upload_batches_embed_fail [OF _ g2]) (simp_all add: after_mismatch_run_def)
  from step0 step1 step2 show ?thesis by simp
qed

lemma mismatch_run:
  "main mismatch_then_fail (foods_upto 101) None empty_world =
     Some (Uploaded (Halted 2) 50, after_mismatch_run)"
proof (rule main_uploads)
  show "foods_upto 101 \<noteq> []" by (simp add: foods_upto_not_Nil)
  show "get_existing_food_ids (select_page mismatch_then_fail empty_world) = Some {}"
    using existing_small_table [of mismatch_then_fail empty_world]
    by (simp add: mismatch_then_fail_def all_fine_def empty_world_def page_size_def)
  show "filter (\<lambda>f. external_id f \<notin> {} \<and>
            external_id f \<notin> set (uploaded_ids (load_progress empty_world))) (foods_upto 101) =
        foods_upto 101"
    by (simp add: load_progress_empty)
  show "foods_upto 101 \<noteq> []" by (simp add: foods_upto_not_Nil)
  show "last_batch (load_progress empty_world) \<noteq> 0 \<or> lower (confirm_input mismatch_then_fail) = ''y''"
    by (simp add: mismatch_then_fail_def all_fine_def lower_y)
  show "batch_upload_foods mismatch_then_fail (foods_upto 101) 50 empty_world =
          Inr (Halted 2, 50, after_mismatch_run)"
    by (rule batch_upload_halted)
       (simp_all add: foods_upto_not_Nil load_progress_empty mismatch_run_batches)
qed

lemma load_progress_after_mismatch_run:
  "load_progress after_mismatch_run =
     \<lparr> uploaded_ids = map external_id (foods_upto 50), last_batch = 1, total_uploaded = 50 \<rparr>"
  by (simp add: load_progress_def after_mismatch_run_def)

lemma existing_after_mismatch_run:
  "get_existing_food_ids (select_page all_fine after_mismatch_run) =
     Some (external_id ` set (foods_upto 50))"
proof -
  have t: "foods_table after_mismatch_run = zero_rows (foods_upto 50)"
    by (simp add: after_mismatch_run_def)
  have "\<not> select_fails all_fine 0"
    by (simp add: all_fine_def)
  moreover have "length (foods_table after_mismatch_run) < page_size"
    by (simp add: t page_size_def)
  ultimately show ?thesis
    using existing_small_table [of all_fine after_mismatch_run]
    by (simp add: t row_ids_zero_rows)
qed

lemma mismatch_rerun_batches:
  "upload_batches all_fine (foods_range 50 101) 50 2 1
     \<lparr> uploaded_ids = map external_id (foods_upto 50), last_batch = 1, total_uploaded = 50 \<rparr>
     50 after_mismatch_run =
   (Completed, 51, after_mismatch_rerun\<lparr> progress_file :=
      Some \<lparr> uploaded_ids = map external_id (foods_upto 50) @ [''100''], last_batch = 2,
             total_uploaded = 51 \<rparr> \<rparr>)"
proof -
  let ?sv = all_fine
  let ?fs = "foods_range 50 101"
  let ?p1 = "\<lparr> uploaded_ids = map external_id (foods_upto 50), last_batch = 1,
               total_uploaded = 50 \<rparr>"
  let ?t = "[''butter 100'']"
  let ?w1 = "after_mismatch_run\<lparr> embedding_requests :=
               embedding_requests after_mismatch_run @ [?t] \<rparr>"
  have g: "generate_embeddings ?sv (map embedding_text (batch_of ?fs 50 1)) after_mismatch_run =
             (Inr [[0]], ?w1)"
    unfolding batch_rest_1
    by (subst generate_embeddings_ok [where es = "[[0]]"])
       (simp_all add: all_fine_def str_nat_100)
  have len: "length [[0::real]] = length (batch_of ?fs 50 1)"
    unfolding batch_rest_1 by simp
  have ok: "\<not> upsert_fails ?sv (length (upsert_requests ?w1))"
    by (simp add: all_fine_def)
  have fresh: "row_external_id ` set (zero_rows [mk_food 100]) \<inter>
               row_external_id ` set (zero_rows (foods_upto 50)) = {}"
    by (auto simp: row_ids_zero_rows foods_upto_def ids_foods_range)
  have ups: "upsert (zero_rows [mk_food 100]) (zero_rows (foods_upto 50)) =
             zero_rows (foods_upto 50) @ zero_rows [mk_food 100]"
    by (rule upsert_fresh [OF _ fresh]) simp
  have rows: "[upload_row_of (mk_food 100) [0]] = zero_rows [mk_food 100]"
    by (simp add: zero_rows_def)
  let ?p2 = "\<lparr> uploaded_ids = map external_id (foods_upto 50) @ [''100''], last_batch = 2,
               total_uploaded = 51 \<rparr>"
  let ?w4 = "after_mismatch_rerun\<lparr> progress_file := Some ?p2 \<rparr>"
  have step1: "upload_batches ?sv ?fs 50 2 1 ?p1 50 after_mismatch_run =
      upload_batches ?sv ?fs 50 2 2 ?p2 51 ?w4"
    by (subst upload_batches_commit [OF _ g len ok])
       (simp_all add: batch_rest_1 [unfolded One_nat_def] rows ups str_nat_100
          after_mismatch_rerun_def after_mismatch_run_def save_progress_def all_fine_def
          numeral_2_eq_2 [symmetric])
  show ?thesis
    unfolding step1 by (rule upload_batches_done) simp
qed

lemma mismatch_rerun:
  "main all_fine (foods_upto 101) None after_mismatch_run =
     Some (Uploaded Completed 51, after_mismatch_rerun)"
proof (rule main_uploads)
  show "foods_upto 101 \<noteq> []" by (simp add: foods_upto_not_Nil)
  show "get_existing_food_ids (select_page all_fine after_mismatch_run) =
          Some (external_id ` set (foods_upto 50))"
    by (rule existing_after_mismatch_run)
  show "filter (\<lambda>f. external_id f \<notin> external_id ` set (foods_upto 50) \<and>
            external_id f \<notin> set (uploaded_ids (load_progress after_mismatch_run))) (foods_upto 101) =
        foods_range 50 101"
    unfolding load_progress_after_mismatch_run using filter_remaining [of 50 101] by simp
  show "foods_range 50 101 \<noteq> []" by (simp add: foods_range_not_Nil)
  show "last_batch (load_progress after_mismatch_run) \<noteq> 0 \<or> lower (confirm_input all_fine) = ''y''"
    by (simp add: load_progress_after_mismatch_run)
  have "after_mismatch_rerun\<lparr> progress_file :=
      Some \<lparr> uploaded_ids = map external_id (foods_upto 50) @ [''100''], last_batch = 2,
             total_uploaded = 51 \<rparr>, progress_file := None \<rparr> = after_mismatch_rerun"
    by (simp add: after_mismatch_rerun_def)
  then show "batch_upload_foods all_fine (foods_range 50 101) 50 after_mismatch_run =
          Inr (Completed, 51, after_mismatch_rerun)"
    using batch_upload_completed [of "foods_range 50 101" 50 all_fine after_mismatch_run 51
        "after_mismatch_rerun\<lparr> progress_file :=
      Some \<lparr> uploaded_ids = map external_id (foods_upto 50) @ [''100''], last_batch = 2,
             total_uploaded = 51 \<rparr> \<rparr>"]
    by (simp add: foods_range_not_Nil load_progress_after_mismatch_run
        mismatch_rerun_batches [unfolded One_nat_def])
qed

lemma skipped_batch_not_reattempted:
  "drop (length (embedding_requests after_mismatch_run)) (embedding_requests after_mismatch_rerun) =
     [[''butter 100'']] \<and>
   row_external_id ` set (foods_table after_mismatch_rerun) \<inter>
     external_id ` set (foods_range 50 100) = {} \<and>
   progress_file after_mismatch_rerun = None"
proof -
  have "row_external_id ` set (foods_table after_mismatch_rerun) = str_nat ` ({0..<50} \<union> {100})"
    by (simp add: after_mismatch_rerun_def row_ids_zero_rows foods_upto_def ids_foods_range
        image_Un Un_commute)
  then have "row_external_id ` set (foods_table after_mismatch_rerun) \<inter>
     external_id ` set (foods_range 50 100) = {}"
    by (auto simp: ids_foods_range)
  moreover have "drop (length (embedding_requests after_mismatch_run))
      (embedding_requests after_mismatch_rerun) = [[''butter 100'']]"
    by (simp add: after_mismatch_rerun_def)
  ultimately show ?thesis
    by (simp add: after_mismatch_rerun_def)
qed

text \<open>
  Claim C3, evaluated on the code. The input has 101 new records. In the first run batch
  0 is committed, the embedding service returns no vector for batch 1, which is skipped,
  and fails for batch 2. The rerun on the same input is left with records 50 to 100 and
  starts at batch 1 of that list: its only embedding request is for record 100, no
  record of the skipped batch reaches the table, and the progress file is removed.
\<close>

theorem mismatch_batch_not_reattempted:
  "drop (length (embedding_requests after_mismatch_run)) (embedding_requests after_mismatch_rerun) =
     [[''butter 100'']] \<and>
   main mismatch_then_fail (foods_upto 101) None empty_world =
     Some (Uploaded (Halted 2) 50, after_mismatch_run) \<and>
   main all_fine (foods_upto 101) None after_mismatch_run =
     Some (Uploaded Completed 51, after_mismatch_rerun) \<and>
   row_external_id ` set (foods_table after_mismatch_rerun) \<inter>
     external_id ` set (foods_range 50 100) = {} \<and>
   progress_file after_mismatch_rerun = None"
  using mismatch_run mismatch_rerun skipped_batch_not_reattempted by (intro conjI) simp_all

lemma first_run_upload:
  "batch_upload_foods fails_after_first (foods_upto 51) 50 empty_world =
     Inr (Halted 1, 50, after_first_run)"
  by (rule batch_upload_halted)
     (simp_all add: foods_upto_not_Nil load_progress_empty first_run_batches)

lemma upsert_down_embeddings:
  "generate_embeddings upsert_down (map embedding_text (batch_of (foods_upto 51) 50 0)) empty_world =
     (Inr (map (\<lambda>t. [0]) (map embedding_text (foods_upto 50))),
      empty_world\<lparr> embedding_requests := [map embedding_text (foods_upto 50)] \<rparr>)"
  unfolding batch_51_0
  by (subst generate_embeddings_ok [where es = "map (\<lambda>t. [0]) (map embedding_text (foods_upto 50))"])
     (simp_all add: upsert_down_def all_fine_def empty_world_def)

lemma upsert_down_batches:
  "upload_batches upsert_down (foods_upto 51) 50 2 0
     \<lparr> uploaded_ids = [], last_batch = 0, total_uploaded = 0 \<rparr> 0 empty_world =
   (Halted 0, 0, after_upsert_down)"
proof -
  let ?es = "map (\<lambda>t. [0::real]) (map embedding_text (foods_upto 50))"
  let ?w1 = "empty_world\<lparr> embedding_requests := [map embedding_text (foods_upto 50)] \<rparr>"
  have len: "length ?es = length (batch_of (foods_upto 51) 50 0)"
    unfolding batch_51_0 by simp
  have fails: "upsert_fails upsert_down (length (upsert_requests ?w1))"
    by (simp add: upsert_down_def)
  show ?thesis
    by (subst upload_batches_upsert_fail [OF _ upsert_down_embeddings len fails])
       (simp_all add: batch_51_0 map2_zero_rows after_upsert_down_def empty_world_def del: map_map)
qed

lemma upsert_down_upload:
  "batch_upload_foods upsert_down (foods_upto 51) 50 empty_world =
     Inr (Halted 0, 0, after_upsert_down)"
  by (rule batch_upload_halted)
     (simp_all add: foods_upto_not_Nil load_progress_empty upsert_down_batches)

text \<open>
  Witness for claim C2. With the embedding service down, the loop over 51 records stops at
  batch 0 after three requests; with the table refusing every upsert, it stops at batch 0
  after the first upsert. In the first of the two runs over 51 records, batch 0 is
  committed and written to the progress file, and the three requests for batch 1 fail.
\<close>

theorem failure_atomicity_witness:
  "upload_batches embedding_down (foods_upto 51) 50 2 0 (load_progress empty_world) 0 empty_world =
     (Halted 0, 0, after_embedding_down) \<and>
   upload_batches upsert_down (foods_upto 51) 50 2 0 (load_progress empty_world) 0 empty_world =
     (Halted 0, 0, after_upsert_down) \<and>
   batch_upload_foods upsert_down (foods_upto 51) 50 empty_world =
     Inr (Halted 0, 0, after_upsert_down) \<and>
   upsert_fails upsert_down 0 \<and>
   Suc 0 = length (upsert_requests after_upsert_down) \<and>
   batch_upload_foods fails_after_first (foods_upto 51) 50 empty_world =
     Inr (Halted 1, 50, after_first_run) \<and>
   request_fails fails_after_first after_first_run 1 \<and>
   request_fails fails_after_first after_first_run 2 \<and>
   request_fails fails_after_first after_first_run 3 \<and>
   1 + 3 = length (embedding_requests after_first_run) \<and>
   writes_ok fails_after_first empty_world after_first_run \<and>
   distinct (map external_id (foods_upto 51)) \<and>
   set (uploaded_ids (load_progress empty_world)) \<inter> external_id ` set (foods_upto 51) = {} \<and>
   load_progress after_first_run =
     replay (foods_upto 51) 50 (load_progress empty_world) [Committed 0] \<and>
   50 = total_uploaded (load_progress after_first_run) \<and>
   last_batch (load_progress after_first_run) \<le> 1 \<and>
   set (uploaded_ids (load_progress after_first_run)) \<inter>
     external_id ` set (batch_of (foods_upto 51) 50 1) = {}"
proof -
  let ?fs = "foods_upto 51"
  let ?p0 = "load_progress empty_world"
  let ?t = "map embedding_text (foods_upto 50)"
  let ?es = "map (\<lambda>t. [0::real]) ?t"
  let ?w1 = "empty_world\<lparr> embedding_requests := [?t] \<rparr>"
  note down = failure_atomicity [where sv = embedding_down and foods = ?fs and batch_size = 50
      and total_batches = 2 and i = 0 and progress = ?p0 and uploaded_count = 0
      and ?w0.0 = empty_world and es = "[]" and ?w1.0 = empty_world and w = empty_world
      and oc = Completed and n = 0 and w' = empty_world and k = 0, THEN conjunct1]
  have fails: "embeddings_create embedding_down j texts = Inl ServiceError" for j texts
    by (simp add: embedding_down_def)
  have a: "upload_batches embedding_down ?fs 50 2 0 ?p0 0 empty_world =
     (Halted 0, 0, after_embedding_down)"
    using down
    by (simp add: fails batch_51_0 after_embedding_down_def empty_world_def numeral_3_eq_3)
  note ups = failure_atomicity [where sv = upsert_down and foods = ?fs and batch_size = 50
      and total_batches = 2 and i = 0 and progress = ?p0 and uploaded_count = 0
      and ?w0.0 = empty_world and es = ?es and ?w1.0 = ?w1 and w = empty_world
      and oc = "Halted 0" and n = 0 and w' = after_upsert_down and k = 0]
  have uf: "upsert_fails upsert_down j" for j
    by (simp add: upsert_down_def)
  have len: "length ?es = length (batch_of ?fs 50 0)"
    unfolding batch_51_0 by simp
  from ups [THEN conjunct2, THEN conjunct1] upsert_down_embeddings len uf
  have "upload_batches upsert_down ?fs 50 2 0 ?p0 0 empty_world =
     (Halted 0, 0,
      empty_world\<lparr> embedding_requests := embedding_requests ?w1,
        upsert_requests := upsert_requests empty_world @ [map2 upload_row_of (batch_of ?fs 50 0) ?es],
        events := events empty_world @ [Failed 0] \<rparr>)"
    by simp
  then have b: "upload_batches upsert_down ?fs 50 2 0 ?p0 0 empty_world =
     (Halted 0, 0, after_upsert_down)"
    by (simp add: batch_51_0 map2_zero_rows after_upsert_down_def empty_world_def del: map_map)
  have len0: "length (upsert_requests empty_world) \<le> 0 \<and>
      0 < length (upsert_requests after_upsert_down)"
    by (simp add: after_upsert_down_def empty_world_def)
  from ups [THEN conjunct2, THEN conjunct2, THEN conjunct1] upsert_down_upload
  have "\<forall>j. length (upsert_requests empty_world) \<le> j \<and>
           j < length (upsert_requests after_upsert_down) \<and> upsert_fails upsert_down j \<longrightarrow>
           Suc j = length (upsert_requests after_upsert_down) \<and> (\<exists>k. Halted 0 = Halted k)"
    by blast
  with len0 uf have c: "Suc 0 = length (upsert_requests after_upsert_down)"
    by blast
  note run = failure_atomicity [where sv = fails_after_first and foods = ?fs and batch_size = 50
      and total_batches = 2 and i = 0 and progress = ?p0 and uploaded_count = 0
      and ?w0.0 = empty_world and es = "[]" and ?w1.0 = empty_world and w = empty_world
      and oc = "Halted 1" and n = 50 and w' = after_first_run and k = 1]
  have rf: "request_fails fails_after_first after_first_run j" if "0 < j" for j
    using that by (simp add: request_fails_def fails_after_first_def)
  have rf1: "request_fails fails_after_first after_first_run 1"
    and rf2: "request_fails fails_after_first after_first_run 2"
    and rf3: "request_fails fails_after_first after_first_run 3"
    by (rule rf, simp)+
  have rf2': "request_fails fails_after_first after_first_run (1 + 1)"
    and rf3': "request_fails fails_after_first after_first_run (1 + 2)"
    by (rule rf, simp)+
  have "length (embedding_requests empty_world) \<le> 1 \<and>
      1 + 2 < length (embedding_requests after_first_run)"
    by (simp add: after_first_run_def empty_world_def)
  with rf1 rf2' rf3'
  have lens: "length (embedding_requests empty_world) \<le> 1 \<and>
      1 + 2 < length (embedding_requests after_first_run) \<and>
      request_fails fails_after_first after_first_run 1 \<and>
      request_fails fails_after_first after_first_run (1 + 1) \<and>
      request_fails fails_after_first after_first_run (1 + 2)"
    by blast
  from run [THEN conjunct2, THEN conjunct2, THEN conjunct1] first_run_upload
  have "\<forall>j. length (embedding_requests empty_world) \<le> j \<and>
           j + 2 < length (embedding_requests after_first_run) \<and>
           request_fails fails_after_first after_first_run j \<and>
           request_fails fails_after_first after_first_run (j + 1) \<and>
           request_fails fails_after_first after_first_run (j + 2) \<longrightarrow>
           j + 3 = length (embedding_requests after_first_run) \<and> (\<exists>k. Halted 1 = Halted k)"
    by blast
  from this [THEN spec, THEN mp, OF lens]
  have d: "1 + 3 = length (embedding_requests after_first_run)" ..
  have wr: "writes_ok fails_after_first empty_world after_first_run"
    by (simp add: writes_ok_def fails_after_first_def all_fine_def list_all_iff)
  have dist: "distinct (map external_id ?fs)"
    by (rule distinct_foods_upto)
  have fresh: "set (uploaded_ids ?p0) \<inter> external_id ` set ?fs = {}"
    by (simp add: load_progress_empty)
  from run [THEN conjunct2, THEN conjunct2, THEN conjunct2] first_run_upload
  obtain evs where
    evs: "events after_first_run = events empty_world @ evs @ [Failed 1]"
      "writes_ok fails_after_first empty_world after_first_run \<longrightarrow>
         load_progress after_first_run = replay ?fs 50 ?p0 evs \<and>
         (committed evs = [] \<longrightarrow> progress_file after_first_run = progress_file empty_world) \<and>
         50 = total_uploaded (load_progress after_first_run) \<and>
         last_batch (load_progress after_first_run) \<le> 1 \<and>
         uploaded_ids (load_progress after_first_run) =
           uploaded_ids ?p0 @ concat (map (\<lambda>j. map external_id (batch_of ?fs 50 j)) (committed evs)) \<and>
         (distinct (map external_id ?fs) \<and> set (uploaded_ids ?p0) \<inter> external_id ` set ?fs = {} \<longrightarrow>
            set (uploaded_ids (load_progress after_first_run)) \<inter>
              external_id ` set (batch_of ?fs 50 1) = {})"
    by blast
  from evs(1) have "evs = [Committed 0]"
    by (simp add: after_first_run_def empty_world_def)
  with evs(2) wr dist fresh have
    e: "load_progress after_first_run = replay ?fs 50 ?p0 [Committed 0]"
      "50 = total_uploaded (load_progress after_first_run)"
      "last_batch (load_progress after_first_run) \<le> 1"
      "set (uploaded_ids (load_progress after_first_run)) \<inter>
         external_id ` set (batch_of ?fs 50 1) = {}"
    by blast+
  from a b c d e wr dist fresh uf [of 0] rf1 rf2 rf3 upsert_down_upload first_run_upload
  show ?thesis
    by blast
qed

lemma refused_run_batches:
  "upload_batches write_refused (foods_upto 51) 50 2 0
     \<lparr> uploaded_ids = [], last_batch = 0, total_uploaded = 0 \<rparr> 0 empty_world =
   (Halted 1, 50, after_refused_write)"
proof -
  let ?sv = write_refused
  let ?fs = "foods_upto 51"
  let ?p0 = "\<lparr> uploaded_ids = [], last_batch = 0, total_uploaded = 0 \<rparr>"
  let ?w1 = "empty_world\<lparr> embedding_requests := [map embedding_text (foods_upto 50)] \<rparr>"
  let ?es = "map (\<lambda>t. [0::real]) (map embedding_text (foods_upto 50))"
  let ?p1 = "\<lparr> uploaded_ids = map external_id (foods_upto 50), last_batch = 1,
               total_uploaded = 50 \<rparr>"
  let ?w4 = "\<lparr> progress_file = None, foods_table = zero_rows (foods_upto 50),
       embedding_requests = [map embedding_text (foods_upto 50)],
       upsert_requests = [zero_rows (foods_upto 50)],
       events = [Committed 0], progress_writes = [first_ledger] \<rparr>"
  have g0: "generate_embeddings ?sv (map embedding_text (batch_of ?fs 50 0)) empty_world = (Inr ?es, ?w1)"
    unfolding batch_51_0
    by (subst generate_embeddings_ok [where es = ?es])
       (simp_all add: write_refused_def fails_after_first_def all_fine_def empty_world_def)
  have len: "length ?es = length (batch_of ?fs 50 0)"
    unfolding batch_51_0 by simp
  have ok: "\<not> upsert_fails ?sv (length (upsert_requests ?w1))"
    by (simp add: write_refused_def fails_after_first_def all_fine_def)
  have ups: "upsert (zero_rows (foods_upto 50)) [] = zero_rows (foods_upto 50)"
    using upsert_fresh [of "zero_rows (foods_upto 50)" "[]"] distinct_foods_upto [of 50]
    by simp
  have step0: "upload_batches ?sv ?fs 50 2 0 ?p0 0 empty_world =
      upload_batches ?sv ?fs 50 2 1 ?p1 50 ?w4"
    by (subst upload_batches_commit [OF _ g0 len ok])
       (simp_all add: batch_51_0 map2_zero_rows ups empty_world_def save_progress_def
          write_refused_def first_ledger_def del: map_map)
  let ?t = "[''butter 50'']"
  have g1: "generate_embeddings ?sv (map embedding_text (batch_of ?fs 50 1)) ?w4 =
      (Inl ServiceError, ?w4\<lparr> embedding_requests := embedding_requests ?w4 @ [?t, ?t, ?t] \<rparr>)"
    unfolding batch_51_1
    by (subst generate_embeddings_exhausted [where ?e0.0 = ServiceError and ?e1.0 = ServiceError
          and ?e2.0 = ServiceError])
       (simp_all add: write_refused_def fails_after_first_def all_fine_def str_nat_50)
  have step1: "upload_batches ?sv ?fs 50 2 1 ?p1 50 ?w4 = (Halted 1, 50, after_refused_write)"
    by (subst upload_batches_embed_fail [OF _ g1])
       (simp_all add: after_refused_write_def after_first_run_def)
  from step0 step1 show ?thesis by simp
qed

lemma str_nat_0: "str_nat 0 = ''0''"
  by (simp add: str_nat.simps digit_char_def)

lemma duplicate_run_batches:
  "upload_batches fails_after_first [mk_food 0, mk_food 0] 1 2 0
     \<lparr> uploaded_ids = [], last_batch = 0, total_uploaded = 0 \<rparr> 0 empty_world =
   (Halted 1, 1, after_duplicate_run)"
proof -
  let ?sv = fails_after_first
  let ?fs = "[mk_food 0, mk_food 0]"
  let ?p0 = "\<lparr> uploaded_ids = [], last_batch = 0, total_uploaded = 0 \<rparr>"
  let ?t = "[''butter 0'']"
  let ?w1 = "empty_world\<lparr> embedding_requests := [?t] \<rparr>"
  let ?p1 = "\<lparr> uploaded_ids = [''0''], last_batch = 1, total_uploaded = 1 \<rparr>"
  let ?w4 = "\<lparr> progress_file = Some ?p1, foods_table = zero_rows [mk_food 0],
       embedding_requests = [?t], upsert_requests = [zero_rows [mk_food 0]],
       events = [Committed 0], progress_writes = [?p1] \<rparr>"
  have b0: "batch_of ?fs 1 0 = [mk_food 0]" and b1: "batch_of ?fs 1 1 = [mk_food 0]"
    by (simp_all add: batch_of_def)
  have g0: "generate_embeddings ?sv (map embedding_text (batch_of ?fs 1 0)) empty_world =
      (Inr [[0]], ?w1)"
    unfolding b0
    by (subst generate_embeddings_ok [where es = "[[0]]"])
       (simp_all add: fails_after_first_def all_fine_def empty_world_def str_nat_0)
  have len: "length [[0::real]] = length (batch_of ?fs 1 0)"
    unfolding b0 by simp
  have ok: "\<not> upsert_fails ?sv (length (upsert_requests ?w1))"
    by (simp add: fails_after_first_def all_fine_def)
  have step0: "upload_batches ?sv ?fs 1 2 0 ?p0 0 empty_world =
      upload_batches ?sv ?fs 1 2 1 ?p1 1 ?w4"
    by (subst upload_batches_commit [OF _ g0 len ok])
       (simp_all add: b0 [unfolded One_nat_def] zero_rows_def upsert_def empty_world_def
          save_progress_def fails_after_first_def all_fine_def str_nat_0)
  have g1: "generate_embeddings ?sv (map embedding_text (batch_of ?fs 1 1)) ?w4 =
      (Inl ServiceError, ?w4\<lparr> embedding_requests := embedding_requests ?w4 @ [?t, ?t, ?t] \<rparr>)"
    unfolding b1
    by (subst generate_embeddings_exhausted [where ?e0.0 = ServiceError and ?e1.0 = ServiceError
          and ?e2.0 = ServiceError])
       (simp_all add: fails_after_first_def all_fine_def str_nat_0)
  have step1: "upload_batches ?sv ?fs 1 2 1 ?p1 1 ?w4 = (Halted 1, 1, after_duplicate_run)"
    by (subst upload_batches_embed_fail [OF _ g1]) (simp_all add: after_duplicate_run_def)
  show ?thesis
    unfolding step0 by (rule step1)
qed

text \<open>
  Claim C2 as it stands does not hold. In a run over 51 records in which the progress file
  cannot be opened for writing, batch 0 is upserted and counted, the failed write is only
  reported, and the run stops at batch 1: the 50 rows are in the table and 50 is returned,
  but there is no progress file, so the ledger read back is the empty one and not the
  ledger after batch 0. In a run over two records with the same id in batches of one,
  batch 0 is committed and batch 1 fails: the id of the failed batch is in the ledger.
\<close>

theorem failure_atomicity_counterexample:
  "batch_upload_foods write_refused (foods_upto 51) 50 empty_world =
     Inr (Halted 1, 50, after_refused_write) \<and>
   foods_table after_refused_write = zero_rows (foods_upto 50) \<and>
   events after_refused_write = [Committed 0, Failed 1] \<and>
   progress_file after_refused_write = None \<and>
   total_uploaded (load_progress after_refused_write) = 0 \<and>
   last_batch (load_progress after_refused_write) = 0 \<and>
   uploaded_ids (load_progress after_refused_write) = [] \<and>
   batch_upload_foods fails_after_first [mk_food 0, mk_food 0] 1 empty_world =
     Inr (Halted 1, 1, after_duplicate_run) \<and>
   batch_of [mk_food 0, mk_food 0] 1 1 = [mk_food 0] \<and>
   external_id (mk_food 0) \<in> set (uploaded_ids (load_progress after_duplicate_run))"
proof -
  have "batch_upload_foods write_refused (foods_upto 51) 50 empty_world =
     Inr (Halted 1, 50, after_refused_write)"
    by (rule batch_upload_halted)
       (simp_all add: foods_upto_not_Nil load_progress_empty refused_run_batches)
  moreover have "batch_upload_foods fails_after_first [mk_food 0, mk_food 0] 1 empty_world =
     Inr (Halted 1, 1, after_duplicate_run)"
    by (rule batch_upload_halted)
       (simp_all add: load_progress_empty duplicate_run_batches [unfolded One_nat_def]
          numeral_2_eq_2 [symmetric])
  moreover have "batch_of [mk_food 0, mk_food 0] 1 1 = [mk_food 0]"
    by (simp add: batch_of_def)
  ultimately show ?thesis
    by (simp add: after_refused_write_def after_first_run_def after_duplicate_run_def
        load_progress_def str_nat_0)
qed

text \<open>Witness for claim C10: a blank record and salted butter, cleaned with limit 0.\<close>

theorem limit_zero_disables_witness:
  "\<exists>cleaned skipped.
     process_usda_json [blank_name_food, raw_butter] (Some 0) = Inr (cleaned, skipped) \<and>
     length cleaned + skipped = 2"
proof -
  from clean_raw_butter obtain r where r: "clean_food_data raw_butter = Inr (Some r)" ..
  have run: "process_usda_json [blank_name_food, raw_butter] (Some 0) = Inr ([r], 1)"
    by (simp add: process_usda_json_def clean_blank_name_food r)
  have "process_usda_json [blank_name_food, raw_butter] (Some 0) = Inr ([r], 1) \<longrightarrow>
        length [r] + 1 = length [blank_name_food, raw_butter]"
    using limit_zero_disables [of "[blank_name_food, raw_butter]" "[r]" 1] by blast
  with run show ?thesis
    by (intro exI [of _ "[r]"] exI [of _ 1]) simp
qed

end
